theory Spec2Isabelle
  imports Main "HOL-Library.AList" "HOL-Library.Multiset"
begin

section \<open>JavaScript values used by CartParser\<close>

subsection \<open>Strings\<close>

text \<open>
  A JavaScript string is a sequence of code units; the model uses \<open>string\<close>, that is the
  code units below 256. \<open>split_str c s\<close> is \<open>s.split(/c/)\<close> for a one-character pattern:
  the empty string gives one empty piece, and \<open>k\<close> separators give \<open>k + 1\<close> pieces.
  \<open>split_from c piece s\<close> reads \<open>s\<close> with the current piece collected in reverse.
\<close>

fun split_from :: "char \<Rightarrow> string \<Rightarrow> string \<Rightarrow> string list" where
  "split_from c piece [] = [rev piece]"
| "split_from c piece (x # xs) =
     (if x = c then rev piece # split_from c [] xs
      else split_from c (x # piece) xs)"

definition split_str :: "char \<Rightarrow> string \<Rightarrow> string list" where
  "split_str c s = split_from c [] s"

text \<open>
  The white space and line terminators that \<open>String.prototype.trim\<close> and the numeric
  coercion strip, among the code units below 256: TAB, LF, VT, FF, CR, SP and NBSP.
\<close>

definition is_ws :: "char \<Rightarrow> bool" where
  "is_ws c = ((of_char c :: nat) \<in> set [9, 10, 11, 12, 13, 32, 160])"

definition trim :: "string \<Rightarrow> string" where
  "trim s = rev (dropWhile is_ws (rev (dropWhile is_ws s)))"

text \<open>\<open>xs[i]\<close>: reading past the end of an array gives \<open>undefined\<close>, here \<open>None\<close>.\<close>

definition js_index :: "'a list \<Rightarrow> nat \<Rightarrow> 'a option" where
  "js_index xs i = (if i < length xs then Some (xs ! i) else None)"

text \<open>A string or \<open>undefined\<close> substituted into a template literal.\<close>

definition template_str :: "string option \<Rightarrow> string" where
  "template_str v = (case v of None \<Rightarrow> ''undefined'' | Some s \<Rightarrow> s)"

text \<open>\<open>xs.filter((l, i) => P i)\<close>: the elements whose index satisfies \<open>P\<close>.\<close>

definition filter_index :: "(nat \<Rightarrow> bool) \<Rightarrow> 'a list \<Rightarrow> 'a list" where
  "filter_index P xs = map snd (filter (\<lambda>(i, l). P i) (enumerate 0 xs))"

fun digits_of_nat :: "nat \<Rightarrow> string" where
  "digits_of_nat n =
     (if n < 10 then [char_of (48 + n)]
      else digits_of_nat (n div 10) @ [char_of (48 + n mod 10)])"

declare digits_of_nat.simps [simp del]

subsection \<open>Numbers\<close>

text \<open>
  A JavaScript number is an IEEE 754 double: NaN, an infinity with its sign, or a finite
  value with its sign, \<open>Finite s m e\<close> standing for \<open>(-1)^s * m * 2^e\<close>. The values the
  operations below return are normalised: \<open>m\<close> is odd, or \<open>m = 0\<close> and \<open>e = 0\<close> (the two
  zeros). \<open>Finite False 0 0\<close> is \<open>+0\<close>, \<open>Finite True 0 0\<close> is \<open>-0\<close>.
\<close>

datatype jsnum = NaN | Infinity bool | Finite bool nat int

fun bitlen :: "nat \<Rightarrow> nat" where
  "bitlen n = (if n = 0 then 0 else Suc (bitlen (n div 2)))"

declare bitlen.simps [simp del]

fun normalise :: "nat \<Rightarrow> int \<Rightarrow> nat \<times> int" where
  "normalise m e =
     (if m = 0 then (0, 0)
      else if even m then normalise (m div 2) (e + 1)
      else (m, e))"

declare normalise.simps [simp del]

text \<open>
  Rounding the positive rational \<open>n / d\<close> to the nearest double, ties to the even mantissa.
  \<open>lead_exponent n d\<close> is the exponent of the leading bit of \<open>n / d\<close>; the last mantissa
  bit has the exponent \<open>ue\<close>, 52 below it and at least \<open>-1074\<close> (subnormal values);
  \<open>nearest_even num den\<close> is the integer nearest to \<open>num / den\<close>; \<open>None\<close> is overflow, a
  value of \<open>2^1024\<close> or more after rounding.
\<close>

definition adjust_lead :: "nat \<Rightarrow> nat \<Rightarrow> int \<Rightarrow> int" where
  "adjust_lead n d e0 = (if d * 2 ^ nat e0 \<le> n * 2 ^ nat (- e0) then e0 else e0 - 1)"

definition lead_exponent :: "nat \<Rightarrow> nat \<Rightarrow> int" where
  "lead_exponent n d = adjust_lead n d (int (bitlen n) - int (bitlen d))"

definition nearest_even :: "nat \<Rightarrow> nat \<Rightarrow> nat" where
  "nearest_even num den =
     (if 2 * (num mod den) < den then num div den
      else if den < 2 * (num mod den) then num div den + 1
      else if even (num div den) then num div den
      else num div den + 1)"

definition pack :: "nat \<Rightarrow> int \<Rightarrow> (nat \<times> int) option" where
  "pack q ue = (if 1024 < int (bitlen q) + ue then None else Some (normalise q ue))"

definition round_at :: "int \<Rightarrow> nat \<Rightarrow> nat \<Rightarrow> (nat \<times> int) option" where
  "round_at ue n d = pack (nearest_even (n * 2 ^ nat (- ue)) (d * 2 ^ nat ue)) ue"

definition round_mag :: "nat \<Rightarrow> nat \<Rightarrow> (nat \<times> int) option" where
  "round_mag n d = round_at (max (lead_exponent n d) (- 1022) - 52) n d"

text \<open>The double nearest to \<open>(-1)^s * n / d\<close>; a zero keeps the sign.\<close>

definition to_double :: "bool \<Rightarrow> nat \<Rightarrow> nat \<Rightarrow> jsnum" where
  "to_double s n d =
     (if n = 0 then Finite s 0 0
      else case round_mag n d of
             None \<Rightarrow> Infinity s
           | Some (m, e) \<Rightarrow> Finite s m e)"

text \<open>The double nearest to \<open>(-1)^s * n * 2^e\<close>.\<close>

definition scaled :: "bool \<Rightarrow> nat \<Rightarrow> int \<Rightarrow> jsnum" where
  "scaled s n e = to_double s (n * 2 ^ nat e) (2 ^ nat (- e))"

text \<open>The signed integer \<open>k\<close> with \<open>Finite s m e = k * 2^e0\<close>, for \<open>e0 \<le> e\<close>.\<close>

definition aligned :: "int \<Rightarrow> bool \<Rightarrow> nat \<Rightarrow> int \<Rightarrow> int" where
  "aligned e0 s m e = (if s then - 1 else 1) * int m * 2 ^ nat (e - e0)"

text \<open>
  The double nearest to the exact sum \<open>k * 2^e0\<close>. An exact sum of zero is \<open>+0\<close>, except
  that \<open>-0 + -0\<close> is \<open>-0\<close> (\<open>z\<close> says that both operands were negative).
\<close>

definition sum_double :: "bool \<Rightarrow> int \<Rightarrow> int \<Rightarrow> jsnum" where
  "sum_double z k e0 = (if k = 0 then Finite z 0 0 else scaled (k < 0) (nat \<bar>k\<bar>) e0)"

text \<open>\<open>x + y\<close> on numbers.\<close>

fun js_add :: "jsnum \<Rightarrow> jsnum \<Rightarrow> jsnum" where
  "js_add NaN y = NaN"
| "js_add x NaN = NaN"
| "js_add (Infinity s) (Infinity t) = (if s = t then Infinity s else NaN)"
| "js_add (Infinity s) (Finite t m e) = Infinity s"
| "js_add (Finite s m e) (Infinity t) = Infinity t"
| "js_add (Finite s1 m1 e1) (Finite s2 m2 e2) =
     sum_double (s1 \<and> s2)
       (aligned (min e1 e2) s1 m1 e1 + aligned (min e1 e2) s2 m2 e2) (min e1 e2)"

text \<open>\<open>x * y\<close> on numbers. Infinity times zero is NaN; the sign of a zero is kept.\<close>

fun js_mul :: "jsnum \<Rightarrow> jsnum \<Rightarrow> jsnum" where
  "js_mul NaN y = NaN"
| "js_mul x NaN = NaN"
| "js_mul (Infinity s) (Infinity t) = Infinity (s \<noteq> t)"
| "js_mul (Infinity s) (Finite t m e) = (if m = 0 then NaN else Infinity (s \<noteq> t))"
| "js_mul (Finite s m e) (Infinity t) = (if m = 0 then NaN else Infinity (s \<noteq> t))"
| "js_mul (Finite s1 m1 e1) (Finite s2 m2 e2) = scaled (s1 \<noteq> s2) (m1 * m2) (e1 + e2)"

text \<open>\<open>x < y\<close> and \<open>x >= y\<close> on numbers: both are false when an operand is NaN.\<close>

fun js_lt :: "jsnum \<Rightarrow> jsnum \<Rightarrow> bool" where
  "js_lt NaN y = False"
| "js_lt x NaN = False"
| "js_lt (Infinity s) (Infinity t) = (s \<and> \<not> t)"
| "js_lt (Infinity s) (Finite t m e) = s"
| "js_lt (Finite s m e) (Infinity t) = (\<not> t)"
| "js_lt (Finite s1 m1 e1) (Finite s2 m2 e2) =
     (aligned (min e1 e2) s1 m1 e1 < aligned (min e1 e2) s2 m2 e2)"

definition js_ge :: "jsnum \<Rightarrow> jsnum \<Rightarrow> bool" where
  "js_ge x y = (x \<noteq> NaN \<and> y \<noteq> NaN \<and> \<not> js_lt x y)"

definition isNaN :: "jsnum \<Rightarrow> bool" where
  "isNaN x = (x = NaN)"

abbreviation zero :: jsnum where
  "zero \<equiv> Finite False 0 0"

subsection \<open>Coercion of a string to a number\<close>

text \<open>
  \<open>Number(s)\<close> on a string: white space is stripped from both ends; the empty string is
  \<open>+0\<close>; \<open>0x\<close>, \<open>0o\<close> and \<open>0b\<close> introduce an unsigned integer in base 16, 8 and 2; otherwise
  an optional sign is followed by \<open>Infinity\<close> or by a decimal literal with an optional
  fraction and an optional exponent; every other string is NaN. The value of a literal is
  rounded to the nearest double (engines round correctly; the standard also allows an
  approximation beyond the 20th significant digit).
\<close>

definition is_digit :: "char \<Rightarrow> bool" where
  "is_digit c = (48 \<le> (of_char c :: nat) \<and> (of_char c :: nat) \<le> 57)"

definition digit_value :: "char \<Rightarrow> nat" where
  "digit_value c =
     (if 48 \<le> (of_char c :: nat) \<and> (of_char c :: nat) \<le> 57 then of_char c - 48
      else if 97 \<le> (of_char c :: nat) \<and> (of_char c :: nat) \<le> 122 then of_char c - 87
      else if 65 \<le> (of_char c :: nat) \<and> (of_char c :: nat) \<le> 90 then of_char c - 55
      else 36)"

definition digits_value :: "nat \<Rightarrow> string \<Rightarrow> nat" where
  "digits_value b ds = foldl (\<lambda>a c. b * a + digit_value c) 0 ds"

definition radix_literal :: "nat \<Rightarrow> string \<Rightarrow> jsnum" where
  "radix_literal b ds =
     (if ds \<noteq> [] \<and> list_all (\<lambda>c. digit_value c < b) ds
      then to_double False (digits_value b ds) 1
      else NaN)"

definition exponent_digits :: "bool \<Rightarrow> string \<Rightarrow> int option" where
  "exponent_digits neg ds =
     (if ds \<noteq> [] \<and> list_all is_digit ds
      then Some (if neg then - int (digits_value 10 ds) else int (digits_value 10 ds))
      else None)"

fun exponent_part :: "string \<Rightarrow> int option" where
  "exponent_part [] = Some 0"
| "exponent_part (c # t) =
     (if c = CHR ''e'' \<or> c = CHR ''E'' then
        exponent_digits (t \<noteq> [] \<and> hd t = CHR ''-'')
          (if t \<noteq> [] \<and> (hd t = CHR ''-'' \<or> hd t = CHR ''+'') then tl t else t)
      else None)"

text \<open>
  An unsigned decimal literal as \<open>(m, k)\<close>, its value being \<open>m * 10^k\<close>: the digits \<open>ip\<close>,
  then optionally a dot and the digits \<open>fp\<close> (one of the two groups may be empty, not
  both), then optionally an exponent.
\<close>

definition decimal_value :: "string \<Rightarrow> string \<Rightarrow> string \<Rightarrow> (nat \<times> int) option" where
  "decimal_value ip fp r =
     (if ip = [] \<and> fp = [] then None
      else case exponent_part r of
             None \<Rightarrow> None
           | Some x \<Rightarrow> Some (digits_value 10 (ip @ fp), x - int (length fp)))"

definition decimal_fraction :: "string \<Rightarrow> string \<Rightarrow> (nat \<times> int) option" where
  "decimal_fraction ip r =
     (if r \<noteq> [] \<and> hd r = CHR ''.''
      then decimal_value ip (takeWhile is_digit (tl r)) (dropWhile is_digit (tl r))
      else decimal_value ip [] r)"

definition unsigned_decimal :: "string \<Rightarrow> (nat \<times> int) option" where
  "unsigned_decimal s = decimal_fraction (takeWhile is_digit s) (dropWhile is_digit s)"

fun decimal_double :: "bool \<Rightarrow> nat \<times> int \<Rightarrow> jsnum" where
  "decimal_double s (m, k) = to_double s (m * 10 ^ nat k) (10 ^ nat (- k))"

definition signed_decimal :: "bool \<Rightarrow> string \<Rightarrow> jsnum" where
  "signed_decimal s t =
     (if t = ''Infinity'' then Infinity s
      else case unsigned_decimal t of
             None \<Rightarrow> NaN
           | Some p \<Rightarrow> decimal_double s p)"

definition numeric_literal :: "string \<Rightarrow> jsnum" where
  "numeric_literal t =
     (if t = [] then zero
      else if take 2 t = ''0x'' \<or> take 2 t = ''0X'' then radix_literal 16 (drop 2 t)
      else if take 2 t = ''0o'' \<or> take 2 t = ''0O'' then radix_literal 8 (drop 2 t)
      else if take 2 t = ''0b'' \<or> take 2 t = ''0B'' then radix_literal 2 (drop 2 t)
      else if hd t = CHR ''-'' then signed_decimal True (tl t)
      else if hd t = CHR ''+'' then signed_decimal False (tl t)
      else signed_decimal False t)"

definition Number_of_string :: "string \<Rightarrow> jsnum" where
  "Number_of_string str = numeric_literal (trim str)"

text \<open>\<open>Number(v)\<close> where \<open>v\<close> is a string or \<open>undefined\<close>: \<open>undefined\<close> is NaN.\<close>

definition Number_of :: "string option \<Rightarrow> jsnum" where
  "Number_of v = (case v of None \<Rightarrow> NaN | Some s \<Rightarrow> Number_of_string s)"

text \<open>
  \<open>Number(x.toFixed(f))\<close> for \<open>0 \<le> f \<le> 100\<close>. \<open>toFixed\<close> prints NaN and the infinities by
  name and a magnitude of \<open>10^21\<close> or more in the shortest digits that read back as \<open>x\<close>, so
  the coercion returns \<open>x\<close>. Otherwise it prints, after \<open>-\<close> when \<open>x < 0\<close>, the integer \<open>n\<close>
  nearest to \<open>|x| * 10^f\<close> (the larger of two) with a dot before its last \<open>f\<close> digits, and
  the coercion reads \<open>n / 10^f\<close> back with that sign. \<open>-0\<close> is not below zero and prints
  without a sign.
\<close>

definition fixed_units :: "nat \<Rightarrow> nat \<Rightarrow> int \<Rightarrow> nat" where
  "fixed_units f m e =
     (2 * (m * 10 ^ f * 2 ^ nat e) + 2 ^ nat (- e)) div (2 * 2 ^ nat (- e))"

fun Number_toFixed :: "nat \<Rightarrow> jsnum \<Rightarrow> jsnum" where
  "Number_toFixed f NaN = NaN"
| "Number_toFixed f (Infinity s) = Infinity s"
| "Number_toFixed f (Finite s m e) =
     (if 10 ^ 21 * 2 ^ nat (- e) \<le> m * 2 ^ nat e then Finite s m e
      else to_double (s \<and> m \<noteq> 0) (fixed_units f m e) (10 ^ f))"

section \<open>The parser\<close>

subsection \<open>Schema, errors and items\<close>

datatype ColumnType = STRING | NUMBER_POSITIVE

datatype ErrorType = HEADER | ROW | CELL

record Column =
  name :: string
  key :: string
  column_type :: ColumnType

definition columns :: "Column list" where
  "columns =
     [\<lparr>name = ''Product name'', key = ''name'', column_type = STRING\<rparr>,
      \<lparr>name = ''Price'', key = ''price'', column_type = NUMBER_POSITIVE\<rparr>,
      \<lparr>name = ''Quantity'', key = ''quantity'', column_type = NUMBER_POSITIVE\<rparr>]"

record ValidationError =
  type :: ErrorType
  row :: int
  column :: int
  message :: string

definition createError :: "ErrorType \<Rightarrow> int \<Rightarrow> int \<Rightarrow> string \<Rightarrow> ValidationError" where
  "createError t r c m = \<lparr>type = t, row = r, column = c, message = m\<rparr>"

text \<open>
  The errors the code can raise: the \<open>TypeError\<close> of a method call on \<open>undefined\<close>, an
  \<open>Error\<close> with its message, and a failure of the file system.
\<close>

datatype js_error = TypeError | Error string | SystemError

text \<open>
  The values of an item's properties. An item is an object, modelled as the list of its
  properties in insertion order; reading a missing property gives \<open>undefined\<close>.
\<close>

datatype jsval = Undefined | Str string | Num jsnum

type_synonym CartItem = "(string \<times> jsval) list"

definition get_prop :: "CartItem \<Rightarrow> string \<Rightarrow> jsval" where
  "get_prop item k = (case map_of item k of None \<Rightarrow> Undefined | Some v \<Rightarrow> v)"

fun ToNumber :: "jsval \<Rightarrow> jsnum" where
  "ToNumber Undefined = NaN"
| "ToNumber (Str s) = Number_of_string s"
| "ToNumber (Num x) = x"

fun string_value :: "string option \<Rightarrow> jsval" where
  "string_value None = Undefined"
| "string_value (Some s) = Str s"

text \<open>\<open>!cell\<close> for a cell that is a string or \<open>undefined\<close>.\<close>

fun falsy :: "string option \<Rightarrow> bool" where
  "falsy None = True"
| "falsy (Some s) = (s = [])"

record ParseResult =
  items :: "CartItem list"
  total :: jsnum

subsection \<open>validate\<close>

text \<open>
  The body of the loop over the schema's columns that checks the header: an error is
  pushed when \<open>headers[i] !== expectedName\<close>, a missing header being \<open>undefined\<close>.
\<close>

definition check_header :: "string list \<Rightarrow> nat \<Rightarrow> ValidationError list \<Rightarrow> ValidationError list" where
  \<open>check_header headers i errors =
     (let expectedName = name (columns ! i)
      in if js_index headers i \<noteq> Some expectedName
         then errors @
           [createError HEADER 0 (int i)
              (''Expected header to be named "'' @ expectedName @ ''" but received '' @
               template_str (js_index headers i) @ ''.'')]
         else errors)\<close>

text \<open>
  The body of the loop over the columns of one row, the \<open>switch\<close> on the column's type.
  \<open>typeof cellAsNumber != 'number'\<close> is false of every result of \<open>Number\<close>.
\<close>

definition check_cell :: "nat \<Rightarrow> string list \<Rightarrow> nat \<Rightarrow> ValidationError list \<Rightarrow> ValidationError list" where
  \<open>check_cell i cells j errors =
     (let cell = js_index cells j;
          columnType = column_type (columns ! j)
      in case columnType of
           STRING \<Rightarrow>
             if falsy cell
             then errors @
               [createError CELL (int i + 1) (int j)
                  (''Expected cell to be a nonempty string but received "'' @
                   template_str cell @ ''".'')]
             else errors
         | NUMBER_POSITIVE \<Rightarrow>
             (let cellAsNumber = Number_of cell
              in if isNaN cellAsNumber \<or> js_lt cellAsNumber zero
                 then errors @
                   [createError CELL (int i + 1) (int j)
                      (''Expected cell to be a positive number but received "'' @
                       template_str cell @ ''".'')]
                 else errors))\<close>

text \<open>
  The body of the loop over the body lines: a row with too few cells gets one error and
  \<open>continue\<close> skips its cells.
\<close>

definition check_row :: "string list \<Rightarrow> nat \<Rightarrow> ValidationError list \<Rightarrow> ValidationError list" where
  \<open>check_row bodyLines i errors =
     (let cells = map trim (split_str CHR '','' (bodyLines ! i))
      in if length cells < length columns
         then errors @
           [createError ROW (int i + 1) (- 1)
              (''Expected row to have '' @ digits_of_nat (length columns) @
               '' cells but received '' @ digits_of_nat (length cells) @ ''.'')]
         else fold (check_cell i cells) [0..<length columns] errors)\<close>

text \<open>
  \<open>validate\<close>: \<open>lines[0]\<close> is \<open>undefined\<close> when no line is left, and \<open>headersLine.split\<close>
  then throws a \<open>TypeError\<close>.
\<close>

definition validate :: "string \<Rightarrow> js_error + ValidationError list" where
  "validate contents =
     (let lines = filter (\<lambda>l. l \<noteq> []) (split_str (CHR 0x0A) contents)
      in case js_index lines 0 of
           None \<Rightarrow> Inl TypeError
         | Some headersLine \<Rightarrow>
             (let bodyLines = filter_index (\<lambda>i. 0 < i) lines;
                  headers = map trim (split_str CHR '','' headersLine);
                  errors = fold (check_header headers) [0..<length columns] [];
                  errors = fold (check_row bodyLines) [0..<length bodyLines] errors
              in Inr errors))"

subsection \<open>parseLine, calcTotal and parse\<close>

text \<open>
  \<open>parseLine\<close>, given the identifier that \<open>uuid.v4()\<close> returns. A missing cell is
  \<open>undefined\<close>, which \<open>Number\<close> turns into NaN.
\<close>

definition parseLine :: "string \<Rightarrow> string \<Rightarrow> CartItem" where
  "parseLine uuid csvLine =
     (let types = map column_type columns;
          keys = map key columns;
          values = map trim (split_str CHR '','' csvLine);
          item = fold (\<lambda>i item.
                   let value = js_index values i;
                       valueTyped = (if types ! i = NUMBER_POSITIVE
                                     then Num (Number_of value) else string_value value)
                   in AList.update (keys ! i) valueTyped item)
                 [0..<length keys] []
      in AList.update ''id'' (Str uuid) item)"

text \<open>
  \<open>calcTotal\<close>: \<open>reduce\<close> from the left, starting at \<open>0\<close>; \<open>*\<close> coerces both properties to
  numbers, and \<open>+\<close> then adds two numbers.
\<close>

definition calcTotal :: "CartItem list \<Rightarrow> jsnum" where
  "calcTotal cartItems =
     foldl (\<lambda>acc cur. js_add acc (js_mul (ToNumber (get_prop cur ''price''))
                                          (ToNumber (get_prop cur ''quantity''))))
       zero cartItems"

text \<open>\<open>readFile\<close>, given what \<open>readFileSync\<close> does on each path.\<close>

definition readFile :: "(string \<Rightarrow> js_error + string) \<Rightarrow> string \<Rightarrow> js_error + string" where
  "readFile readFileSync path = readFileSync path"

text \<open>
  \<open>parse\<close>, given the file system and the identifiers that the successive calls of
  \<open>uuid.v4()\<close> return. The result is what was written to \<open>console.error\<close> and either the
  error thrown or the object returned.
\<close>

definition parse ::
  "(string \<Rightarrow> js_error + string) \<Rightarrow> (nat \<Rightarrow> string) \<Rightarrow> string
     \<Rightarrow> ValidationError list list \<times> (js_error + ParseResult)" where
  "parse readFileSync uuid_v4 path =
     (case readFile readFileSync path of
        Inl e \<Rightarrow> ([], Inl e)
      | Inr contents \<Rightarrow>
          (case validate contents of
             Inl e \<Rightarrow> ([], Inl e)
           | Inr validationErrors \<Rightarrow>
               if 0 < length validationErrors
               then ([validationErrors], Inl (Error ''Validation failed!''))
               else
                 (let lines = filter_index (\<lambda>i. 0 < i)
                                (filter (\<lambda>l. l \<noteq> []) (split_str (CHR 0x0A) contents));
                      items = map (\<lambda>(i, l). parseLine (uuid_v4 i) l) (enumerate 0 lines);
                      total = calcTotal items
                  in ([], Inr \<lparr>items = items, total = Number_toFixed 2 total\<rparr>))))"

subsection \<open>The pieces of an input\<close>

text \<open>
  The non-empty lines of the contents, the trimmed cells of a line, and the errors that
  the header loop and one pass of the row loop push.
\<close>

definition lines_of :: "string \<Rightarrow> string list" where
  "lines_of contents = filter (\<lambda>l. l \<noteq> []) (split_str (CHR 0x0A) contents)"

definition cells_of :: "string \<Rightarrow> string list" where
  "cells_of line = map trim (split_str CHR '','' line)"

definition header_errors :: "string list \<Rightarrow> ValidationError list" where
  "header_errors headers = concat (map (\<lambda>i. check_header headers i []) [0..<length columns])"

definition row_errors :: "string list \<Rightarrow> nat \<Rightarrow> ValidationError list" where
  "row_errors bodyLines i = check_row bodyLines i []"

subsection \<open>Natural numbers as doubles\<close>

text \<open>
  \<open>nat_double n\<close> is the double of the natural number \<open>n\<close> (exact below \<open>2^53\<close>),
  \<open>nat_value\<close> the value of a non-negative integral double, \<open>is_nat_number x\<close> says that
  \<open>x\<close> is such a double, and \<open>subtotal\<close> is the exact product of an item's price and
  quantity when both are.
\<close>

definition nat_double :: "nat \<Rightarrow> jsnum" where
  "nat_double n = Finite False (fst (normalise n 0)) (snd (normalise n 0))"

fun nat_value :: "jsnum \<Rightarrow> nat" where
  "nat_value (Finite s m e) = m * 2 ^ nat e"
| "nat_value x = 0"

definition is_nat_number :: "jsnum \<Rightarrow> bool" where
  "is_nat_number x = (x = nat_double (nat_value x))"

definition subtotal :: "CartItem \<Rightarrow> nat" where
  "subtotal item = nat_value (ToNumber (get_prop item ''price'')) *
                   nat_value (ToNumber (get_prop item ''quantity''))"

section \<open>Properties\<close>

subsection \<open>The structure of the error list\<close>

lemma filter_index_drop: "filter_index (\<lambda>i. 0 < i) xs = drop 1 xs"
proof -
  have "\<And>n. map snd (filter (\<lambda>(i, l). n < i) (enumerate n xs)) = drop 1 xs"
  proof (induction xs)
    case Nil
    show ?case by simp
  next
    case (Cons x xs)
    have "filter (\<lambda>(i, l). n < i) (enumerate (Suc n) xs) = enumerate (Suc n) xs"
      by (rule filter_True) (auto simp: in_set_enumerate_eq)
    then show ?case by simp
  qed
  then show ?thesis by (simp add: filter_index_def)
qed

lemma fold_push:
  assumes "\<And>x acc. f x acc = acc @ f x []"
  shows "fold f xs acc = acc @ concat (map (\<lambda>x. f x []) xs)"
proof (induction xs arbitrary: acc)
  case Nil
  show ?case by simp
next
  case (Cons x xs)
  have "fold f (x # xs) acc = fold f xs (f x acc)" by simp
  also have "\<dots> = f x acc @ concat (map (\<lambda>x. f x []) xs)" by (rule Cons.IH)
  also have "f x acc = acc @ f x []" by (rule assms)
  finally show ?case by simp
qed

lemma check_header_push: "check_header headers i errors = errors @ check_header headers i []"
  by (simp add: check_header_def Let_def)

lemma check_cell_push: "check_cell i cells j errors = errors @ check_cell i cells j []"
  by (simp add: check_cell_def Let_def split: ColumnType.split)

lemma check_row_push: "check_row bodyLines i errors = errors @ check_row bodyLines i []"
proof -
  have "\<And>cells acc. fold (check_cell i cells) [0..<length columns] acc =
      acc @ concat (map (\<lambda>j. check_cell i cells j []) [0..<length columns])"
    by (rule fold_push) (rule check_cell_push)
  then show ?thesis
    by (simp add: check_row_def Let_def)
qed

lemma validate_Nil: "lines_of contents = [] \<Longrightarrow> validate contents = Inl TypeError"
  by (simp add: validate_def lines_of_def js_index_def)

lemma validate_Cons:
  assumes "lines_of contents = headersLine # bodyLines"
  shows "validate contents =
    Inr (header_errors (cells_of headersLine) @
         concat (map (row_errors bodyLines) [0..<length bodyLines]))"
proof -
  have h: "fold (check_header hs) [0..<length columns] [] = header_errors hs" for hs
    unfolding header_errors_def
    using fold_push [of "check_header hs" "[0..<length columns]" "[]", OF check_header_push]
    by simp
  have r: "fold (check_row bodyLines) [0..<length bodyLines] acc =
      acc @ concat (map (row_errors bodyLines) [0..<length bodyLines])" for acc
    unfolding row_errors_def
    by (rule fold_push) (rule check_row_push)
  from assms have l: "filter (\<lambda>l. l \<noteq> []) (split_str (CHR 0x0A) contents) = headersLine # bodyLines"
    by (simp add: lines_of_def)
  show ?thesis
    by (simp add: validate_def l js_index_def filter_index_drop h r cells_of_def [symmetric])
qed

lemma length_columns: "length columns = 3"
  by (simp add: columns_def)

lemma upt_3: "[0..<3] = [0, 1, 2]"
  by (simp add: upt_rec)

lemma columns_nth:
  "columns ! 0 = \<lparr>name = ''Product name'', key = ''name'', column_type = STRING\<rparr>"
  "columns ! 1 = \<lparr>name = ''Price'', key = ''price'', column_type = NUMBER_POSITIVE\<rparr>"
  "columns ! 2 = \<lparr>name = ''Quantity'', key = ''quantity'', column_type = NUMBER_POSITIVE\<rparr>"
  "columns ! Suc 0 = \<lparr>name = ''Price'', key = ''price'', column_type = NUMBER_POSITIVE\<rparr>"
  by (simp_all add: columns_def)

lemma header_errors_row: "e \<in> set (header_errors hs) \<Longrightarrow> row e = 0"
  by (auto simp: header_errors_def check_header_def createError_def Let_def split: if_splits)

lemma check_cell_row: "e \<in> set (check_cell i cells j []) \<Longrightarrow> row e = int i + 1"
  by (auto simp: check_cell_def createError_def Let_def split: if_splits ColumnType.splits)

lemma digits_of_nat_3: "digits_of_nat 3 = ''3''"
  by code_simp

lemma row_errors_unfold:
  "row_errors bodyLines i =
     (if length (cells_of (bodyLines ! i)) < 3
      then [createError ROW (int i + 1) (- 1)
              (''Expected row to have 3 cells but received '' @
               digits_of_nat (length (cells_of (bodyLines ! i))) @ ''.'')]
      else check_cell i (cells_of (bodyLines ! i)) 0 [] @
           check_cell i (cells_of (bodyLines ! i)) 1 [] @
           check_cell i (cells_of (bodyLines ! i)) 2 [])"
proof -
  have "fold (check_cell i cells) [0..<length columns] [] =
      [] @ concat (map (\<lambda>j. check_cell i cells j []) [0..<length columns])" for cells
    by (rule fold_push) (rule check_cell_push)
  then show ?thesis
    by (simp add: row_errors_def check_row_def Let_def cells_of_def length_columns upt_3
        digits_of_nat_3)
qed

lemma row_errors_row: "e \<in> set (row_errors bodyLines i) \<Longrightarrow> row e = int i + 1"
  by (auto simp: row_errors_unfold createError_def dest: check_cell_row split: if_splits)

lemma filter_rows:
  assumes "\<And>j e. e \<in> set (f j) \<Longrightarrow> row e = int j + 1" and "i < n"
  shows "filter (\<lambda>e. row e = int i + 1) (concat (map f [0..<n])) = f i"
  using assms(2)
proof (induction n)
  case 0
  then show ?case by simp
next
  case (Suc n)
  have other: "filter (\<lambda>e. row e = int i + 1) (f j) = []" if "j \<noteq> i" for j
    using that assms(1) [of _ j] by (auto simp: filter_empty_conv)
  have same: "filter (\<lambda>e. row e = int i + 1) (f i) = f i"
    using assms(1) [of _ i] by (auto simp: filter_id_conv)
  have none: "filter (\<lambda>e. row e = int i + 1) (concat (map f [0..<m])) = []" if "m \<le> i" for m
    using that by (induction m) (auto simp: other)
  show ?case
  proof (cases "i = n")
    case True
    with none [of n] same show ?thesis by simp
  next
    case False
    with Suc have "i < n" by simp
    with Suc.IH False show ?thesis by (simp add: other)
  qed
qed

lemma validate_row_errors:
  assumes "lines_of contents = headersLine # bodyLines" and "i < length bodyLines"
  shows "\<exists>es. validate contents = Inr es \<and>
           filter (\<lambda>e. row e = int i + 1) es = row_errors bodyLines i"
proof -
  have h: "filter (\<lambda>e. row e = int i + 1) (header_errors (cells_of headersLine)) = []"
    by (auto simp: filter_empty_conv dest: header_errors_row)
  have r: "filter (\<lambda>e. row e = int i + 1)
      (concat (map (row_errors bodyLines) [0..<length bodyLines])) = row_errors bodyLines i"
    using row_errors_row assms(2) by (rule filter_rows)
  show ?thesis
    by (simp add: validate_Cons [OF assms(1)] h r)
qed

lemma validate_total_iff:
  "(\<exists>es. validate contents = Inr es) \<longleftrightarrow> lines_of contents \<noteq> []"
  by (cases "lines_of contents") (auto simp: validate_Nil validate_Cons)

subsection \<open>Evaluation on concrete inputs\<close>

text \<open>
  Equations that unfold the recursive functions on numerals only, and the definitions
  that evaluate numbers, lines and cells.
\<close>

lemma bitlen_0: "bitlen 0 = 0" by (simp add: bitlen.simps)
lemma bitlen_1: "bitlen (Suc 0) = Suc 0" by (simp add: bitlen.simps)
lemma bitlen_numeral: "bitlen (numeral k) = Suc (bitlen (numeral k div 2))"
  by (subst bitlen.simps) simp
lemma normalise_0: "normalise 0 e = (0, 0)" by (simp add: normalise.simps)
lemma normalise_1: "normalise (Suc 0) e = (Suc 0, e)" by (simp add: normalise.simps)
lemma normalise_numeral: "normalise (numeral k) e =
  (if even (numeral k :: nat) then normalise (numeral k div 2) (e + 1) else (numeral k, e))"
  by (subst normalise.simps) simp
lemmas eval_number = adjust_lead_def lead_exponent_def nearest_even_def pack_def round_at_def
  round_mag_def to_double_def scaled_def aligned_def sum_double_def bitlen_0 bitlen_1
  bitlen_numeral normalise_0 normalise_1 normalise_numeral
  is_digit_def digit_value_def digits_value_def radix_literal_def exponent_digits_def
  decimal_value_def decimal_fraction_def unsigned_decimal_def
  signed_decimal_def numeric_literal_def Number_of_string_def Number_of_def trim_def is_ws_def
  fixed_units_def isNaN_def js_ge_def
lemmas eval_lines = lines_of_def cells_of_def split_str_def trim_def is_ws_def

subsection \<open>The checks of one cell, parseLine and parse\<close>

lemma check_cell_column: "e \<in> set (check_cell i cells j []) \<Longrightarrow> column e = int j"
  by (auto simp: check_cell_def createError_def Let_def split: if_splits ColumnType.splits)

lemma check_cell_type: "e \<in> set (check_cell i cells j []) \<Longrightarrow> type e = CELL"
  by (auto simp: check_cell_def createError_def Let_def split: if_splits ColumnType.splits)

lemma check_cell_string:
  \<open>check_cell i cells 0 [] =
     (if falsy (js_index cells 0)
      then [createError CELL (int i + 1) 0
              (''Expected cell to be a nonempty string but received "'' @
               template_str (js_index cells 0) @ ''".'')]
      else [])\<close>
  by (simp add: check_cell_def columns_nth Let_def)

lemma check_cell_number:
  assumes "j = 1 \<or> j = 2"
  shows \<open>check_cell i cells j [] =
     (if isNaN (Number_of (js_index cells j)) \<or> js_lt (Number_of (js_index cells j)) zero
      then [createError CELL (int i + 1) (int j)
              (''Expected cell to be a positive number but received "'' @
               template_str (js_index cells j) @ ''".'')]
      else [])\<close>
  using assms by (auto simp: check_cell_def columns_nth Let_def)

lemma check_cell_take:
  "j < 3 \<Longrightarrow> check_cell i (take 3 cells) j errors = check_cell i cells j errors"
  by (simp add: check_cell_def js_index_def)

lemma parseLine_unfold:
  "parseLine uuid csvLine =
     [(''name'', string_value (js_index (cells_of csvLine) 0)),
      (''price'', Num (Number_of (js_index (cells_of csvLine) 1))),
      (''quantity'', Num (Number_of (js_index (cells_of csvLine) 2))),
      (''id'', Str uuid)]"
  by (simp add: parseLine_def Let_def length_columns upt_3 cells_of_def columns_def numeral_2_eq_2)

lemma parse_unfold:
  assumes "readFileSync path = Inr contents"
  shows "parse readFileSync uuid_v4 path =
     (case validate contents of
        Inl e \<Rightarrow> ([], Inl e)
      | Inr es \<Rightarrow>
          if es \<noteq> [] then ([es], Inl (Error ''Validation failed!''))
          else ([], Inr \<lparr>items = map (\<lambda>(i, l). parseLine (uuid_v4 i) l)
                                   (enumerate 0 (drop 1 (lines_of contents))),
                         total = Number_toFixed 2
                           (calcTotal (map (\<lambda>(i, l). parseLine (uuid_v4 i) l)
                              (enumerate 0 (drop 1 (lines_of contents)))))\<rparr>))"
  using assms
  by (simp add: parse_def readFile_def Let_def filter_index_drop lines_of_def
      split: sum.split)

subsection \<open>Valid inputs and sample inputs\<close>

lemma valid_rows:
  assumes "validate contents = Inr []" and "i < length (drop 1 (lines_of contents))"
  shows "row_errors (drop 1 (lines_of contents)) i = []"
proof (cases "lines_of contents")
  case Nil
  with assms show ?thesis by (simp add: validate_Nil)
next
  case (Cons h body)
  from assms(1) have "concat (map (row_errors body) [0..<length body]) = []"
    by (simp add: validate_Cons [OF Cons])
  with assms(2) Cons show ?thesis
    by (auto simp: concat_eq_Nil_conv)
qed

lemma valid_row_cells:
  assumes "row_errors bodyLines i = []"
  shows "3 \<le> length (cells_of (bodyLines ! i))"
    and "j = 1 \<or> j = 2 \<Longrightarrow> js_ge (Number_of_string (cells_of (bodyLines ! i) ! j)) zero"
proof -
  let ?cells = "cells_of (bodyLines ! i)"
  from assms show n: "3 \<le> length ?cells"
    by (simp add: row_errors_unfold split: if_splits)
  assume j: "j = 1 \<or> j = 2"
  from assms n have "check_cell i ?cells j [] = []"
    using j by (auto simp: row_errors_unfold)
  moreover from n j have "js_index ?cells j = Some (?cells ! j)"
    by (auto simp: js_index_def)
  ultimately show "js_ge (Number_of_string (?cells ! j)) zero"
    by (simp add: check_cell_number [OF j] Number_of_def js_ge_def isNaN_def split: if_splits)
qed

lemma parseLine_numbers:
  assumes "3 \<le> length (cells_of csvLine)"
  shows "get_prop (parseLine uuid csvLine) ''price'' = Num (Number_of_string (cells_of csvLine ! 1))"
    and "get_prop (parseLine uuid csvLine) ''quantity'' = Num (Number_of_string (cells_of csvLine ! 2))"
proof -
  from assms have "js_index (cells_of csvLine) 1 = Some (cells_of csvLine ! 1)"
    "js_index (cells_of csvLine) 2 = Some (cells_of csvLine ! 2)"
    by (auto simp: js_index_def)
  then show "get_prop (parseLine uuid csvLine) ''price'' = Num (Number_of_string (cells_of csvLine ! 1))"
    and "get_prop (parseLine uuid csvLine) ''quantity'' = Num (Number_of_string (cells_of csvLine ! 2))"
    by (simp_all add: parseLine_unfold get_prop_def Number_of_def)
qed

lemmas eval_items = parseLine_unfold js_index_def Number_of_def calcTotal_def get_prop_def

lemmas eval_validate = header_errors_def check_header_def length_columns upt_3 columns_nth
  row_errors_unfold check_cell_string check_cell_number [of 1, simplified]
  check_cell_number [of 2, simplified] js_index_def Number_of_def template_str_def

lemma validate_sample:
  "validate ''Product name,Price,Quantity\<newline>Mollis consequat,9.00,2\<newline>  Tvoluptatem,10.32,1\<newline>Scelerisque lacinia,18.90,1\<newline>Consectetur adipiscing,28.72,10\<newline>Condimentum aliquet,13.90,1 '' = Inr []"
proof -
  have l: "lines_of ''Product name,Price,Quantity\<newline>Mollis consequat,9.00,2\<newline>  Tvoluptatem,10.32,1\<newline>Scelerisque lacinia,18.90,1\<newline>Consectetur adipiscing,28.72,10\<newline>Condimentum aliquet,13.90,1 '' =
     [''Product name,Price,Quantity'', ''Mollis consequat,9.00,2'', ''  Tvoluptatem,10.32,1'',
      ''Scelerisque lacinia,18.90,1'', ''Consectetur adipiscing,28.72,10'',
      ''Condimentum aliquet,13.90,1 '']"
    by (simp add: eval_lines)
  have u: "[0..<5] = [0, 1, 2, 3, 4]" by (simp add: upt_rec)
  have h: "header_errors (cells_of ''Product name,Price,Quantity'') = []"
    by (simp add: eval_validate eval_lines)
  show ?thesis
    by (simp add: validate_Cons [OF l] h u eval_validate eval_lines eval_number)
qed

lemma validate_example_negative:
  \<open>validate ''Product name,Price,Quantity\<newline>Mollis consequat,2,-10'' =
     Inr [createError CELL 1 2 ''Expected cell to be a positive number but received "-10".'']\<close>
proof -
  have l: "lines_of ''Product name,Price,Quantity\<newline>Mollis consequat,2,-10'' =
      [''Product name,Price,Quantity'', ''Mollis consequat,2,-10'']"
    by (simp add: eval_lines)
  have h: "header_errors (cells_of ''Product name,Price,Quantity'') = []"
    by (simp add: header_errors_def check_header_def length_columns upt_3 columns_nth
        js_index_def eval_lines)
  have c: "cells_of ''Mollis consequat,2,-10'' = [''Mollis consequat'', ''2'', ''-10'']"
    by (simp add: eval_lines)
  have n1: "Number_of_string ''2'' = Finite False 1 1"
    by (simp add: eval_number)
  have n2: "Number_of_string ''-10'' = Finite True 5 1"
    by (simp add: eval_number)
  have r: "row_errors [''Mollis consequat,2,-10''] 0 =
      [createError CELL 1 2 ''Expected cell to be a positive number but received \"-10\".'']"
    by (simp add: row_errors_unfold c check_cell_string check_cell_number js_index_def
        Number_of_def n1 n2 isNaN_def aligned_def template_str_def)
  show ?thesis
    by (simp add: validate_Cons [OF l] h r)
qed

lemma validate_one_row:
  "validate ''Product name,Price,Quantity\<newline>Mollis consequat,9.00,2'' = Inr []"
proof -
  have l: "lines_of ''Product name,Price,Quantity\<newline>Mollis consequat,9.00,2'' =
      [''Product name,Price,Quantity'', ''Mollis consequat,9.00,2'']"
    by (simp add: eval_lines)
  show ?thesis
    by (simp add: validate_Cons [OF l] eval_validate eval_lines eval_number)
qed

lemma parse_valid_items:
  assumes "readFileSync path = Inr contents" and "validate contents = Inr []"
  shows "parse readFileSync uuid_v4 path =
     ([], Inr \<lparr>items = map (\<lambda>(i, l). parseLine (uuid_v4 i) l)
                            (enumerate 0 (drop 1 (lines_of contents))),
                  total = Number_toFixed 2
                    (calcTotal (map (\<lambda>(i, l). parseLine (uuid_v4 i) l)
                       (enumerate 0 (drop 1 (lines_of contents)))))\<rparr>)"
  by (simp add: parse_unfold [of readFileSync path contents, OF assms(1)] assms(2))

subsection \<open>Exact arithmetic on natural numbers below \<open>2^53\<close>\<close>

lemma bitlen_pos: "0 < n \<Longrightarrow> 0 < bitlen n"
  by (subst bitlen.simps) simp

lemma bitlen_upper: "n < 2 ^ bitlen n"
proof (induction n rule: bitlen.induct)
  case (1 n)
  show ?case
  proof (cases "n = 0")
    case True
    then show ?thesis by simp
  next
    case False
    with 1 have "n div 2 < 2 ^ bitlen (n div 2)" by simp
    then have "n < 2 * 2 ^ bitlen (n div 2)" by linarith
    with False show ?thesis by (subst bitlen.simps) simp
  qed
qed

lemma bitlen_lower: "0 < n \<Longrightarrow> 2 ^ (bitlen n - 1) \<le> n"
proof (induction n rule: bitlen.induct)
  case (1 n)
  show ?case
  proof (cases "n div 2 = 0")
    case True
    with 1(2) have "n = 1" by (simp add: div_eq_0_iff) 
    then show ?thesis by (simp add: bitlen_1)
  next
    case False
    with 1 have ih: "2 ^ (bitlen (n div 2) - 1) \<le> n div 2" by simp
    from False have p: "0 < bitlen (n div 2)" by (simp add: bitlen_pos)
    from 1(2) have "bitlen n = Suc (bitlen (n div 2))" by (subst bitlen.simps) simp
    then have "bitlen n - 1 = Suc (bitlen (n div 2) - 1)" using p by simp
    then have "(2::nat) ^ (bitlen n - 1) = 2 * 2 ^ (bitlen (n div 2) - 1)" by simp
    also have "\<dots> \<le> 2 * (n div 2)" using ih by simp
    also have "\<dots> \<le> n" by simp
    finally show ?thesis .
  qed
qed

lemma bitlen_le: "n < 2 ^ k \<Longrightarrow> bitlen n \<le> k"
proof (rule ccontr)
  assume a: "n < 2 ^ k" and "\<not> bitlen n \<le> k"
  then have k: "k \<le> bitlen n - 1" and p: "0 < n"
    by (auto simp: bitlen_0 intro: gr0I)
  from k have "(2::nat) ^ k \<le> 2 ^ (bitlen n - 1)" by (rule power_increasing) simp
  also from p have "\<dots> \<le> n" by (rule bitlen_lower)
  finally show False using a by simp
qed

lemma bitlen_double: "0 < n \<Longrightarrow> bitlen (2 * n) = Suc (bitlen n)"
  by (subst bitlen.simps) simp

lemma bitlen_shift: "0 < n \<Longrightarrow> bitlen (n * 2 ^ k) = bitlen n + k"
proof (induction k)
  case 0
  show ?case by simp
next
  case (Suc k)
  have e: "n * 2 ^ Suc k = 2 * (n * 2 ^ k)" by simp
  from Suc.prems have p: "0 < n * 2 ^ k" by simp
  have "bitlen (n * 2 ^ Suc k) = bitlen (2 * (n * 2 ^ k))" by (simp only: e)
  also from p have "\<dots> = Suc (bitlen (n * 2 ^ k))" by (rule bitlen_double)
  also from Suc have "\<dots> = bitlen n + Suc k" by simp
  finally show ?case .
qed

lemma normalise_double: "0 < n \<Longrightarrow> normalise (2 * n) e = normalise n (e + 1)"
  by (subst normalise.simps) simp

lemma normalise_shift: "0 < n \<Longrightarrow> normalise (n * 2 ^ k) (e - int k) = normalise n e"
proof (induction k arbitrary: e)
  case 0
  show ?case by simp
next
  case (Suc k)
  have m: "n * 2 ^ Suc k = 2 * (n * 2 ^ k)" by simp
  have x: "e - int (Suc k) + 1 = e - int k" by simp
  from Suc.prems have p: "0 < n * 2 ^ k" by simp
  have "normalise (n * 2 ^ Suc k) (e - int (Suc k)) = normalise (2 * (n * 2 ^ k)) (e - int (Suc k))"
    by (simp only: m)
  also have "\<dots> = normalise (n * 2 ^ k) (e - int k)"
    by (simp only: normalise_double [OF p] x)
  also have "\<dots> = normalise n e" using Suc by simp
  finally show ?case .
qed

lemma normalise_value:
  "normalise n e = (m, x) \<Longrightarrow> 0 < n \<Longrightarrow> e \<le> x \<and> m * 2 ^ nat (x - e) = n"
proof (induction n e rule: normalise.induct)
  case (1 n e)
  show ?case
  proof (cases "even n")
    case True
    with 1(3) have d: "0 < n div 2" by auto
    from True 1(2,3) have "normalise (n div 2) (e + 1) = (m, x)"
      by (subst (asm) normalise.simps) simp
    with 1(1) [OF _ True _ d] 1(3) have ih: "e + 1 \<le> x \<and> m * 2 ^ nat (x - (e + 1)) = n div 2"
      by simp
    then have "nat (x - e) = Suc (nat (x - (e + 1)))" by linarith
    with ih True show ?thesis by auto
  next
    case False
    with 1(2,3) have "m = n \<and> x = e" by (subst (asm) normalise.simps) simp
    then show ?thesis by simp
  qed
qed

lemma nearest_even_1: "nearest_even x (Suc 0) = x"
  by (simp add: nearest_even_def)

lemma round_mag_nat:
  assumes "0 < n" and "n < 2 ^ 53"
  shows "round_mag n (Suc 0) = Some (normalise n 0)"
proof -
  from assms(2) have b: "bitlen n \<le> 53" by (rule bitlen_le)
  from assms(1) have p: "0 < bitlen n" by (rule bitlen_pos)
  have l: "lead_exponent n (Suc 0) = int (bitlen n) - 1"
  proof -
    have "nat (int (bitlen n) - 1) = bitlen n - 1" by simp
    moreover have "nat (- (int (bitlen n) - 1)) = 0" using p by simp
    moreover have "2 ^ (bitlen n - 1) \<le> n" using assms(1) by (rule bitlen_lower)
    ultimately show ?thesis
      by (simp add: lead_exponent_def adjust_lead_def bitlen_1)
  qed
  define k where "k = 53 - bitlen n"
  have ue: "max (lead_exponent n (Suc 0)) (- 1022) - 52 = - int k"
    using b p by (simp add: l k_def)
  have q: "bitlen (n * 2 ^ k) = 53"
    using assms(1) b by (simp add: bitlen_shift k_def)
  have "round_mag n (Suc 0) = round_at (- int k) n (Suc 0)"
    by (simp add: round_mag_def ue)
  also have "\<dots> = pack (n * 2 ^ k) (- int k)"
    by (simp add: round_at_def nearest_even_1)
  also have "\<dots> = Some (normalise (n * 2 ^ k) (0 - int k))"
    by (simp add: pack_def q)
  also have "\<dots> = Some (normalise n 0)"
    using assms(1) by (simp only: normalise_shift)
  finally show ?thesis .
qed

lemma to_double_nat:
  assumes "n < 2 ^ 53"
  shows "to_double False n (Suc 0) = nat_double n"
proof (cases "n = 0")
  case True
  then show ?thesis by (simp add: to_double_def nat_double_def normalise_0)
next
  case False
  then have "round_mag n (Suc 0) = Some (normalise n 0)"
    using assms by (intro round_mag_nat) simp_all
  with False show ?thesis
    by (simp add: to_double_def nat_double_def case_prod_beta)
qed

lemma nat_double_value:
  "nat_double n = Finite False m e \<Longrightarrow> 0 \<le> e \<and> m * 2 ^ nat e = n"
proof (cases "n = 0")
  case True
  assume "nat_double n = Finite False m e"
  with True show ?thesis by (simp add: nat_double_def normalise_0)
next
  case False
  assume "nat_double n = Finite False m e"
  then have "normalise n 0 = (m, e)" by (simp add: nat_double_def prod_eq_iff)
  from normalise_value [OF this] False show ?thesis by simp
qed

lemma nat_double_cases:
  obtains m e where "nat_double n = Finite False m e" and "0 \<le> e" and "m * 2 ^ nat e = n"
proof -
  have "nat_double n = Finite False (fst (normalise n 0)) (snd (normalise n 0))"
    by (simp add: nat_double_def)
  with nat_double_value [OF this] that show ?thesis by blast
qed

lemma js_mul_nat:
  assumes "a * b < 2 ^ 53"
  shows "js_mul (nat_double a) (nat_double b) = nat_double (a * b)"
proof -
  obtain m1 e1 where a: "nat_double a = Finite False m1 e1" "0 \<le> e1" "m1 * 2 ^ nat e1 = a"
    by (rule nat_double_cases)
  obtain m2 e2 where b: "nat_double b = Finite False m2 e2" "0 \<le> e2" "m2 * 2 ^ nat e2 = b"
    by (rule nat_double_cases)
  from a(2) b(2) have "nat (e1 + e2) = nat e1 + nat e2" and "nat (- (e1 + e2)) = 0"
    by simp_all
  then have "js_mul (nat_double a) (nat_double b) =
      to_double False (m1 * m2 * 2 ^ (nat e1 + nat e2)) (Suc 0)"
    by (simp add: a(1) b(1) scaled_def)
  also have "m1 * m2 * 2 ^ (nat e1 + nat e2) = a * b"
    by (simp add: a(3) [symmetric] b(3) [symmetric] power_add mult_ac)
  finally show ?thesis using assms by (simp add: to_double_nat)
qed

lemma js_add_nat:
  assumes "a + b < 2 ^ 53"
  shows "js_add (nat_double a) (nat_double b) = nat_double (a + b)"
proof -
  obtain m1 e1 where a: "nat_double a = Finite False m1 e1" "0 \<le> e1" "m1 * 2 ^ nat e1 = a"
    by (rule nat_double_cases)
  obtain m2 e2 where b: "nat_double b = Finite False m2 e2" "0 \<le> e2" "m2 * 2 ^ nat e2 = b"
    by (rule nat_double_cases)
  define e0 where "e0 = min e1 e2"
  define k where "k = m1 * 2 ^ nat (e1 - e0) + m2 * 2 ^ nat (e2 - e0)"
  from a(2) b(2) have e0: "0 \<le> e0" "e0 \<le> e1" "e0 \<le> e2" by (simp_all add: e0_def)
  have s: "aligned e0 False m1 e1 + aligned e0 False m2 e2 = int k"
    by (simp add: aligned_def k_def)
  have p1: "2 ^ nat (e1 - e0) * 2 ^ nat e0 = (2::nat) ^ nat e1"
    using e0 by (simp add: power_add [symmetric] nat_add_distrib [symmetric])
  have p2: "2 ^ nat (e2 - e0) * 2 ^ nat e0 = (2::nat) ^ nat e2"
    using e0 by (simp add: power_add [symmetric] nat_add_distrib [symmetric])
  have v: "k * 2 ^ nat e0 = a + b"
  proof -
    have "k * 2 ^ nat e0 = m1 * (2 ^ nat (e1 - e0) * 2 ^ nat e0) + m2 * (2 ^ nat (e2 - e0) * 2 ^ nat e0)"
      by (simp add: k_def algebra_simps)
    also have "\<dots> = a + b" by (simp only: p1 p2 a(3) b(3))
    finally show ?thesis .
  qed
  have j: "js_add (nat_double a) (nat_double b) = sum_double False (int k) e0"
    by (simp add: a(1) b(1) s e0_def [symmetric])
  show ?thesis
  proof (cases "k = 0")
    case True
    with v have "a + b = 0" by simp
    then have "nat_double (a + b) = zero" by (simp add: nat_double_def normalise_0)
    moreover from True have "sum_double False (int k) e0 = zero" by (simp add: sum_double_def)
    ultimately show ?thesis by (simp only: j)
  next
    case False
    from e0(1) have "nat (- e0) = 0" by simp
    with False j have "js_add (nat_double a) (nat_double b) = to_double False (k * 2 ^ nat e0) (Suc 0)"
      by (simp add: sum_double_def scaled_def)
    with v assms show ?thesis by (simp add: to_double_nat)
  qed
qed

lemma is_nat_numberD: "is_nat_number x \<Longrightarrow> x = nat_double (nat_value x)"
  by (simp add: is_nat_number_def)

lemma foldl_exact:
  assumes "\<forall>item\<in>set cartItems.
      is_nat_number (ToNumber (get_prop item ''price'')) \<and>
      is_nat_number (ToNumber (get_prop item ''quantity''))"
    and "acc + sum_list (map subtotal cartItems) < 2 ^ 53"
  shows "foldl (\<lambda>acc cur. js_add acc (js_mul (ToNumber (get_prop cur ''price''))
                                             (ToNumber (get_prop cur ''quantity''))))
           (nat_double acc) cartItems =
         nat_double (acc + sum_list (map subtotal cartItems))"
  using assms
proof (induction cartItems arbitrary: acc)
  case Nil
  show ?case by simp
next
  case (Cons item cartItems)
  let ?p = "ToNumber (get_prop item ''price'')" and ?q = "ToNumber (get_prop item ''quantity'')"
  from Cons.prems(1) have "?p = nat_double (nat_value ?p)" "?q = nat_double (nat_value ?q)"
    by (simp_all add: is_nat_numberD)
  then have pq: "js_mul ?p ?q = js_mul (nat_double (nat_value ?p)) (nat_double (nat_value ?q))"
    by simp
  from Cons.prems(2) have b: "acc + subtotal item + sum_list (map subtotal cartItems) < 2 ^ 53"
    by (simp add: add.assoc)
  then have "nat_value ?p * nat_value ?q < 2 ^ 53" "acc + subtotal item < 2 ^ 53"
    by (simp_all add: subtotal_def)
  then have "js_add (nat_double acc) (js_mul ?p ?q) = nat_double (acc + subtotal item)"
    by (simp only: pq js_mul_nat js_add_nat subtotal_def)
  moreover from Cons.prems(1) have "\<forall>item\<in>set cartItems.
      is_nat_number (ToNumber (get_prop item ''price'')) \<and>
      is_nat_number (ToNumber (get_prop item ''quantity''))" by simp
  from Cons.IH [OF this b]
  have "foldl (\<lambda>acc cur. js_add acc (js_mul (ToNumber (get_prop cur ''price''))
                                             (ToNumber (get_prop cur ''quantity''))))
           (nat_double (acc + subtotal item)) cartItems =
         nat_double (acc + subtotal item + sum_list (map subtotal cartItems))" .
  ultimately show ?case by (simp add: add.assoc)
qed

lemma nat_double_0: "nat_double 0 = zero"
  by (simp add: nat_double_def normalise_0)

lemma calcTotal_exact:
  assumes "\<forall>item\<in>set cartItems.
      is_nat_number (ToNumber (get_prop item ''price'')) \<and>
      is_nat_number (ToNumber (get_prop item ''quantity''))"
    and "sum_list (map subtotal cartItems) < 2 ^ 53"
  shows "calcTotal cartItems = nat_double (sum_list (map subtotal cartItems))"
  using foldl_exact [of cartItems 0] assms
  by (simp add: calcTotal_def nat_double_0)

lemma sum_list_subtotal_mset:
  "mset xs = mset ys \<Longrightarrow> sum_list (map subtotal xs) = sum_list (map subtotal ys)"
proof -
  assume "mset xs = mset ys"
  then have "mset (map subtotal xs) = mset (map subtotal ys)" by simp
  then have "sum_mset (mset (map subtotal xs)) = sum_mset (mset (map subtotal ys))" by simp
  then show ?thesis by (simp only: sum_mset_sum_list)
qed

lemmas eval_total = calcTotal_def get_prop_def

lemmas eval_nat = is_nat_number_def nat_double_def subtotal_def get_prop_def
  normalise_0 normalise_1 normalise_numeral

subsection \<open>Totality of validate\<close>

text \<open>
  C2. The claim is that \<open>validate\<close> returns a list of errors on every string, the empty
  string and strings of newlines included. On those inputs no line is left after the empty
  ones are dropped, \<open>lines[0]\<close> is \<open>undefined\<close>, and the call \<open>headersLine.split\<close> throws a
  \<open>TypeError\<close>: \<open>validate\<close> does not return there.
\<close>

theorem validate_no_line_TypeError:
  "validate [] = Inl TypeError \<and> validate [CHR 0x0A, CHR 0x0A] = Inl TypeError"
  by (simp add: validate_Nil lines_of_def split_str_def)

subsection \<open>Header errors\<close>

text \<open>
  C4. When the header line has an \<open>i\<close>-th trimmed token that differs from the name of the
  schema's \<open>i\<close>-th column, \<open>validate\<close> reports a HEADER error at row 0 and column \<open>i\<close>
  with the message \<open>Expected header to be named "<expected>" but received <received>.\<close>
  Each position is checked on its own, so one input can have several HEADER errors (the
  witness has two).
\<close>

theorem header_mismatch_reported:
  assumes "lines_of contents = headersLine # bodyLines"
    and "i < 3"
    and "js_index (cells_of headersLine) i = Some received"
    and "received \<noteq> name (columns ! i)"
  shows \<open>\<exists>es. validate contents = Inr es \<and>
      createError HEADER 0 (int i)
        (''Expected header to be named "'' @ name (columns ! i) @
         ''" but received '' @ received @ ''.'') \<in> set es\<close>
proof -
  have "createError HEADER 0 (int i)
        (''Expected header to be named \"'' @ name (columns ! i) @
         ''\" but received '' @ received @ ''.'') \<in> set (check_header (cells_of headersLine) i [])"
    using assms(3,4) by (simp add: check_header_def Let_def template_str_def)
  moreover have "i \<in> set [0..<length columns]"
    using assms(2) by (simp add: length_columns)
  ultimately have "createError HEADER 0 (int i)
        (''Expected header to be named \"'' @ name (columns ! i) @
         ''\" but received '' @ received @ ''.'') \<in> set (header_errors (cells_of headersLine))"
    unfolding header_errors_def by (simp only: set_concat set_map) blast
  then show ?thesis
    by (simp add: validate_Cons [OF assms(1)])
qed

theorem header_mismatch_reported_witness:
  \<open>lines_of (''Product name,Priiice,Qty\<newline>Mollis consequat,9.00,2'') =
      [''Product name,Priiice,Qty'', ''Mollis consequat,9.00,2''] \<and>
    js_index (cells_of ''Product name,Priiice,Qty'') 1 = Some ''Priiice'' \<and>
    ''Priiice'' \<noteq> name (columns ! 1) \<and>
    js_index (cells_of ''Product name,Priiice,Qty'') 2 = Some ''Qty'' \<and>
    ''Qty'' \<noteq> name (columns ! 2) \<and>
    (\<exists>es. validate (''Product name,Priiice,Qty\<newline>Mollis consequat,9.00,2'') = Inr es \<and>
       createError HEADER 0 1 ''Expected header to be named "Price" but received Priiice.'' \<in> set es \<and>
       createError HEADER 0 2 ''Expected header to be named "Quantity" but received Qty.'' \<in> set es)\<close>
proof -
  let ?c = "''Product name,Priiice,Qty\<newline>Mollis consequat,9.00,2''"
  have l: "lines_of ?c = [''Product name,Priiice,Qty'', ''Mollis consequat,9.00,2'']"
    by (simp add: eval_lines)
  have c1: "js_index (cells_of ''Product name,Priiice,Qty'') 1 = Some ''Priiice''"
    by (simp add: eval_lines js_index_def)
  have c2: "js_index (cells_of ''Product name,Priiice,Qty'') 2 = Some ''Qty''"
    by (simp add: eval_lines js_index_def)
  have n1: "''Priiice'' \<noteq> name (columns ! 1)" and n2: "''Qty'' \<noteq> name (columns ! 2)"
    by (simp_all add: columns_nth)
  have i1: "(1::nat) < 3" and i2: "(2::nat) < 3" by simp_all
  from header_mismatch_reported [OF l i1 c1 n1] header_mismatch_reported [OF l i2 c2 n2]
  have "\<exists>es. validate ?c = Inr es \<and>
       createError HEADER 0 1 ''Expected header to be named \"Price\" but received Priiice.'' \<in> set es \<and>
       createError HEADER 0 2 ''Expected header to be named \"Quantity\" but received Qty.'' \<in> set es"
    by (auto simp: columns_nth)
  with l c1 c2 n1 n2 show ?thesis by blast
qed

subsection \<open>Rows with too few cells\<close>

text \<open>
  C5. A body row with fewer than 3 cells gets exactly one error: the errors of its row
  number are the single ROW error at column \<open>-1\<close> with the message
  \<open>Expected row to have 3 cells but received <M>.\<close>, so no CELL error has that row.
\<close>

theorem short_row_single_error:
  assumes "lines_of contents = headersLine # bodyLines"
    and "i < length bodyLines"
    and "length (cells_of (bodyLines ! i)) < 3"
  shows "\<exists>es. validate contents = Inr es \<and>
      filter (\<lambda>e. row e = int i + 1) es =
        [createError ROW (int i + 1) (- 1)
           (''Expected row to have 3 cells but received '' @
            digits_of_nat (length (cells_of (bodyLines ! i))) @ ''.'')]"
  using validate_row_errors [OF assms(1,2)] assms(3)
  by (simp add: row_errors_unfold)

theorem short_row_single_error_witness:
  "lines_of (''Product name,Price,Quantity\<newline>Mollis consequat,9.00'') =
      [''Product name,Price,Quantity'', ''Mollis consequat,9.00''] \<and>
   length (cells_of ''Mollis consequat,9.00'') = 2 \<and>
   validate (''Product name,Price,Quantity\<newline>Mollis consequat,9.00'') =
     Inr [createError ROW 1 (- 1) ''Expected row to have 3 cells but received 2.'']"
proof -
  let ?c = "''Product name,Price,Quantity\<newline>Mollis consequat,9.00''"
  have l: "lines_of ?c = [''Product name,Price,Quantity'', ''Mollis consequat,9.00'']"
    by (simp add: eval_lines)
  have n: "length (cells_of ''Mollis consequat,9.00'') = 2"
    by (simp add: eval_lines)
  have d: "digits_of_nat 2 = ''2''" by code_simp
  have i: "0 < length [''Mollis consequat,9.00'']" by simp
  have s: "length (cells_of ([''Mollis consequat,9.00''] ! 0)) < 3"
    using n by simp
  have h: "header_errors (cells_of ''Product name,Price,Quantity'') = []"
    by (simp add: header_errors_def check_header_def length_columns upt_3 columns_nth
        js_index_def eval_lines)
  have v: "validate ?c = Inr (row_errors [''Mollis consequat,9.00''] 0)"
    by (simp add: validate_Cons [OF l] h)
  from short_row_single_error [OF l i s] have
    "row_errors [''Mollis consequat,9.00''] 0 =
       [createError ROW 1 (- 1) ''Expected row to have 3 cells but received 2.'']"
    using n by (simp add: v d row_errors_row filter_id_conv)
  with l n v show ?thesis by simp
qed

subsection \<open>Cell errors\<close>

text \<open>
  C6. In a body row with at least 3 cells, an empty trimmed cell in the STRING column 0
  gives a CELL error at that row and column 0, and a trimmed cell in a number column (1 or
  2) that coerces to NaN or to a number below zero gives a CELL error at that row and
  column. The input whose only body row is \<open>Mollis consequat,2,-10\<close> gives exactly one
  error, the CELL error at (1, 2) with the message
  \<open>Expected cell to be a positive number but received "-10".\<close>
\<close>

theorem invalid_cell_reported:
  \<open>(\<forall>contents headersLine bodyLines i.
      lines_of contents = headersLine # bodyLines \<and> i < length bodyLines \<and>
      3 \<le> length (cells_of (bodyLines ! i)) \<longrightarrow>
      (\<exists>es. validate contents = Inr es \<and>
         (cells_of (bodyLines ! i) ! 0 = [] \<longrightarrow>
            createError CELL (int i + 1) 0
              (''Expected cell to be a nonempty string but received "'' @
               cells_of (bodyLines ! i) ! 0 @ ''".'') \<in> set es) \<and>
         (\<forall>j\<in>{1, 2}.
            isNaN (Number_of_string (cells_of (bodyLines ! i) ! j)) \<or>
            js_lt (Number_of_string (cells_of (bodyLines ! i) ! j)) zero \<longrightarrow>
            createError CELL (int i + 1) (int j)
              (''Expected cell to be a positive number but received "'' @
               cells_of (bodyLines ! i) ! j @ ''".'') \<in> set es))) \<and>
    validate ''Product name,Price,Quantity\<newline>Mollis consequat,2,-10'' =
      Inr [createError CELL 1 2 ''Expected cell to be a positive number but received "-10".'']\<close>
proof (intro conjI allI impI)
  fix contents headersLine bodyLines and i :: nat
  assume a: "lines_of contents = headersLine # bodyLines \<and> i < length bodyLines \<and>
      3 \<le> length (cells_of (bodyLines ! i))"
  let ?cells = "cells_of (bodyLines ! i)"
  from a have l: "lines_of contents = headersLine # bodyLines" and i: "i < length bodyLines"
    and n: "3 \<le> length ?cells" by simp_all
  from validate_row_errors [OF l i] obtain es where
    v: "validate contents = Inr es" and
    f: "filter (\<lambda>e. row e = int i + 1) es = row_errors bodyLines i" by blast
  from n have r: "row_errors bodyLines i =
      check_cell i ?cells 0 [] @ check_cell i ?cells 1 [] @ check_cell i ?cells 2 []"
    by (simp add: row_errors_unfold)
  have sub: "set (row_errors bodyLines i) \<subseteq> set es"
    unfolding f [symmetric] by simp
  have s: "createError CELL (int i + 1) 0
        (''Expected cell to be a nonempty string but received \"'' @ ?cells ! 0 @ ''\".'') \<in> set es"
    if "?cells ! 0 = []"
  proof -
    from n have ix: "js_index ?cells 0 = Some (?cells ! 0)" by (auto simp: js_index_def)
    from that have "falsy (js_index ?cells 0)" by (simp add: ix)
    then have "createError CELL (int i + 1) 0
        (''Expected cell to be a nonempty string but received \"'' @ ?cells ! 0 @ ''\".'')
        \<in> set (check_cell i ?cells 0 [])"
      by (simp add: check_cell_string ix template_str_def)
    with r sub show ?thesis by auto
  qed
  have m: "createError CELL (int i + 1) (int j)
        (''Expected cell to be a positive number but received \"'' @ ?cells ! j @ ''\".'') \<in> set es"
    if j: "j \<in> {1, 2}" and bad: "isNaN (Number_of_string (?cells ! j)) \<or>
        js_lt (Number_of_string (?cells ! j)) zero" for j
  proof -
    from j have j': "j = 1 \<or> j = 2" by simp
    with n have ix: "js_index ?cells j = Some (?cells ! j)" by (auto simp: js_index_def)
    from bad have "createError CELL (int i + 1) (int j)
        (''Expected cell to be a positive number but received \"'' @ ?cells ! j @ ''\".'')
        \<in> set (check_cell i ?cells j [])"
      by (simp add: check_cell_number [OF j'] ix Number_of_def template_str_def)
    with r sub j' show ?thesis by auto
  qed
  from v s m show "\<exists>es. validate contents = Inr es \<and>
         (?cells ! 0 = [] \<longrightarrow>
            createError CELL (int i + 1) 0
              (''Expected cell to be a nonempty string but received \"'' @
               ?cells ! 0 @ ''\".'') \<in> set es) \<and>
         (\<forall>j\<in>{1, 2}.
            isNaN (Number_of_string (?cells ! j)) \<or>
            js_lt (Number_of_string (?cells ! j)) zero \<longrightarrow>
            createError CELL (int i + 1) (int j)
              (''Expected cell to be a positive number but received \"'' @
               ?cells ! j @ ''\".'') \<in> set es)"
    by blast
next
  show "validate ''Product name,Price,Quantity\<newline>Mollis consequat,2,-10'' =
      Inr [createError CELL 1 2 ''Expected cell to be a positive number but received \"-10\".'']"
    by (rule validate_example_negative)
qed

theorem invalid_cell_reported_witness:
  \<open>lines_of ''Product name,Price,Quantity\<newline>,2,-10'' =
      [''Product name,Price,Quantity'', '',2,-10''] \<and>
    cells_of '',2,-10'' = ['''', ''2'', ''-10''] \<and>
    js_lt (Number_of_string ''-10'') zero \<and>
    (\<exists>es. validate ''Product name,Price,Quantity\<newline>,2,-10'' = Inr es \<and>
       createError CELL 1 0 ''Expected cell to be a nonempty string but received "".'' \<in> set es \<and>
       createError CELL 1 2 ''Expected cell to be a positive number but received "-10".'' \<in> set es)\<close>
proof -
  let ?c = "''Product name,Price,Quantity\<newline>,2,-10''"
  have l: "lines_of ?c = [''Product name,Price,Quantity'', '',2,-10'']"
    by (simp add: eval_lines)
  have c: "cells_of '',2,-10'' = ['''', ''2'', ''-10'']"
    by (simp add: eval_lines)
  have n: "Number_of_string ''-10'' = Finite True 5 1"
    by (simp add: eval_number)
  have lt: "js_lt (Number_of_string ''-10'') zero"
    by (simp add: n aligned_def)
  have "lines_of ?c = ''Product name,Price,Quantity'' # ['',2,-10''] \<and>
      0 < length ['',2,-10''] \<and> 3 \<le> length (cells_of (['',2,-10''] ! 0))"
    using l c by simp
  with invalid_cell_reported obtain es where
    v: "validate ?c = Inr es" and
    s: "cells_of (['',2,-10''] ! 0) ! 0 = [] \<longrightarrow>
         createError CELL (int 0 + 1) 0
           (''Expected cell to be a nonempty string but received \"'' @
            cells_of (['',2,-10''] ! 0) ! 0 @ ''\".'') \<in> set es" and
    m: "\<forall>j\<in>{1, 2}.
         isNaN (Number_of_string (cells_of (['',2,-10''] ! 0) ! j)) \<or>
         js_lt (Number_of_string (cells_of (['',2,-10''] ! 0) ! j)) zero \<longrightarrow>
         createError CELL (int 0 + 1) (int j)
           (''Expected cell to be a positive number but received \"'' @
            cells_of (['',2,-10''] ! 0) ! j @ ''\".'') \<in> set es"
    by blast
  from s c have e0: "createError CELL 1 0
      ''Expected cell to be a nonempty string but received \"\".'' \<in> set es"
    by simp
  from m [rule_format, of 2] c lt have e2: "createError CELL 1 2
      ''Expected cell to be a positive number but received \"-10\".'' \<in> set es"
    by simp
  from l c lt v e0 e2 show ?thesis by blast
qed

subsection \<open>Rows with more than 3 cells\<close>

text \<open>
  C9. A body row with more than 3 cells gets no ROW error (every error of its row number
  is a CELL error), its errors are those of the checks of its first 3 cells alone, and
  \<open>parseLine\<close> maps cells 0, 1 and 2 onto the keys and ignores the other cells.
\<close>

theorem long_row_extra_cells_ignored:
  assumes "lines_of contents = headersLine # bodyLines"
    and "i < length bodyLines"
    and "3 < length (cells_of (bodyLines ! i))"
  shows "\<exists>es. validate contents = Inr es \<and>
      (\<forall>e\<in>set es. row e = int i + 1 \<longrightarrow> type e = CELL) \<and>
      filter (\<lambda>e. row e = int i + 1) es =
        check_cell i (take 3 (cells_of (bodyLines ! i))) 0 [] @
        check_cell i (take 3 (cells_of (bodyLines ! i))) 1 [] @
        check_cell i (take 3 (cells_of (bodyLines ! i))) 2 [] \<and>
      parseLine uuid (bodyLines ! i) =
        [(''name'', Str (cells_of (bodyLines ! i) ! 0)),
         (''price'', Num (Number_of_string (cells_of (bodyLines ! i) ! 1))),
         (''quantity'', Num (Number_of_string (cells_of (bodyLines ! i) ! 2))),
         (''id'', Str uuid)]"
proof -
  let ?cells = "cells_of (bodyLines ! i)"
  from validate_row_errors [OF assms(1,2)] obtain es where
    v: "validate contents = Inr es" and
    f: "filter (\<lambda>e. row e = int i + 1) es = row_errors bodyLines i" by blast
  from assms(3) have r: "row_errors bodyLines i =
      check_cell i ?cells 0 [] @ check_cell i ?cells 1 [] @ check_cell i ?cells 2 []"
    by (simp add: row_errors_unfold)
  have t: "type e = CELL" if "e \<in> set es" and "row e = int i + 1" for e
  proof -
    from that have "e \<in> set (filter (\<lambda>e. row e = int i + 1) es)" by simp
    with f r show ?thesis by (auto dest: check_cell_type)
  qed
  from assms(3) have ix: "js_index ?cells 0 = Some (?cells ! 0)"
    "js_index ?cells (Suc 0) = Some (?cells ! Suc 0)" "js_index ?cells 2 = Some (?cells ! 2)"
    by (auto simp: js_index_def)
  have p: "parseLine uuid (bodyLines ! i) =
        [(''name'', Str (?cells ! 0)),
         (''price'', Num (Number_of_string (?cells ! 1))),
         (''quantity'', Num (Number_of_string (?cells ! 2))),
         (''id'', Str uuid)]"
    by (simp add: parseLine_unfold ix Number_of_def)
  from v t f r p show ?thesis
    by (simp add: check_cell_take)
qed

theorem long_row_extra_cells_ignored_witness:
  "lines_of ''Product name,Price,Quantity\<newline>Mollis consequat,9.00,2,extra,-5'' =
     [''Product name,Price,Quantity'', ''Mollis consequat,9.00,2,extra,-5''] \<and>
   cells_of ''Mollis consequat,9.00,2,extra,-5'' =
     [''Mollis consequat'', ''9.00'', ''2'', ''extra'', ''-5''] \<and>
   validate ''Product name,Price,Quantity\<newline>Mollis consequat,9.00,2,extra,-5'' = Inr [] \<and>
   parseLine ''uuid'' ''Mollis consequat,9.00,2,extra,-5'' =
     [(''name'', Str ''Mollis consequat''), (''price'', Num (Finite False 9 0)),
      (''quantity'', Num (Finite False 1 1)), (''id'', Str ''uuid'')]"
proof -
  let ?c = "''Product name,Price,Quantity\<newline>Mollis consequat,9.00,2,extra,-5''"
  let ?l = "''Mollis consequat,9.00,2,extra,-5''"
  have l: "lines_of ?c = [''Product name,Price,Quantity'', ?l]"
    by (simp add: eval_lines)
  have c: "cells_of ?l = [''Mollis consequat'', ''9.00'', ''2'', ''extra'', ''-5'']"
    by (simp add: eval_lines)
  have i: "0 < length [?l]" by simp
  have n: "3 < length (cells_of ([?l] ! 0))" using c by simp
  have n9: "Number_of_string ''9.00'' = Finite False 9 0"
    and n2: "Number_of_string ''2'' = Finite False 1 1"
    by (simp_all add: eval_number)
  from long_row_extra_cells_ignored [OF l i n, of "''uuid''"] obtain es where
    v: "validate ?c = Inr es" and
    f: "filter (\<lambda>e. row e = int 0 + 1) es =
        check_cell 0 (take 3 (cells_of ([?l] ! 0))) 0 [] @
        check_cell 0 (take 3 (cells_of ([?l] ! 0))) 1 [] @
        check_cell 0 (take 3 (cells_of ([?l] ! 0))) 2 []" and
    p: "parseLine ''uuid'' ([?l] ! 0) =
        [(''name'', Str (cells_of ([?l] ! 0) ! 0)),
         (''price'', Num (Number_of_string (cells_of ([?l] ! 0) ! 1))),
         (''quantity'', Num (Number_of_string (cells_of ([?l] ! 0) ! 2))),
         (''id'', Str ''uuid'')]"
    by blast
  from p c n9 n2 have p': "parseLine ''uuid'' ?l =
     [(''name'', Str ''Mollis consequat''), (''price'', Num (Finite False 9 0)),
      (''quantity'', Num (Finite False 1 1)), (''id'', Str ''uuid'')]"
    by simp
  have v': "validate ?c = Inr []"
    by (simp add: validate_Cons [OF l] eval_validate eval_lines eval_number)
  from l c v' p' show ?thesis by simp
qed

subsection \<open>Zero and blank numbers\<close>

text \<open>
  C10. A cell of a number column whose trimmed content is \<open>0\<close> or empty gets no CELL
  error: the coercion gives \<open>0\<close> for both, and only NaN and numbers below zero are
  rejected.
\<close>

theorem zero_and_blank_numbers_accepted:
  assumes "lines_of contents = headersLine # bodyLines"
    and "i < length bodyLines"
    and "3 \<le> length (cells_of (bodyLines ! i))"
    and "j = 1 \<or> j = 2"
    and "cells_of (bodyLines ! i) ! j = ''0'' \<or> cells_of (bodyLines ! i) ! j = []"
  shows "\<exists>es. validate contents = Inr es \<and>
      Number_of_string (cells_of (bodyLines ! i) ! j) = zero \<and>
      (\<forall>e\<in>set es. \<not> (row e = int i + 1 \<and> column e = int j))"
proof -
  let ?cells = "cells_of (bodyLines ! i)"
  from validate_row_errors [OF assms(1,2)] obtain es where
    v: "validate contents = Inr es" and
    f: "filter (\<lambda>e. row e = int i + 1) es = row_errors bodyLines i" by blast
  from assms(3) have r: "row_errors bodyLines i =
      check_cell i ?cells 0 [] @ check_cell i ?cells 1 [] @ check_cell i ?cells 2 []"
    by (simp add: row_errors_unfold)
  have z0: "Number_of_string ''0'' = zero" by (simp add: eval_number)
  have z1: "Number_of_string [] = zero" by (simp add: eval_number)
  from assms(5) z0 z1 have z: "Number_of_string (?cells ! j) = zero" by auto
  from assms(3,4) have ix: "js_index ?cells j = Some (?cells ! j)"
    by (auto simp: js_index_def)
  have none: "check_cell i ?cells j [] = []"
    by (simp add: check_cell_number [OF assms(4)] ix Number_of_def z isNaN_def aligned_def)
  have "\<not> (row e = int i + 1 \<and> column e = int j)" if "e \<in> set es" for e
  proof
    assume a: "row e = int i + 1 \<and> column e = int j"
    with that have "e \<in> set (filter (\<lambda>e. row e = int i + 1) es)" by simp
    with f r have "e \<in> set (check_cell i ?cells 0 []) \<or> e \<in> set (check_cell i ?cells 1 []) \<or>
        e \<in> set (check_cell i ?cells 2 [])" by auto
    then have "column e = 0 \<or> column e = 1 \<or> column e = 2"
      using check_cell_column [of e i ?cells 0] check_cell_column [of e i ?cells 1]
        check_cell_column [of e i ?cells 2] by auto
    with a assms(4) none \<open>e \<in> set (check_cell i ?cells 0 []) \<or> e \<in> set (check_cell i ?cells 1 []) \<or>
        e \<in> set (check_cell i ?cells 2 [])\<close>
    show False
      using check_cell_column [of e i ?cells 0] check_cell_column [of e i ?cells 1]
        check_cell_column [of e i ?cells 2] by auto
  qed
  with v z show ?thesis by blast
qed

theorem zero_and_blank_numbers_accepted_witness:
  "lines_of ''Product name,Price,Quantity\<newline>Free sample,0,'' =
     [''Product name,Price,Quantity'', ''Free sample,0,''] \<and>
   cells_of ''Free sample,0,'' = [''Free sample'', ''0'', ''''] \<and>
   Number_of_string ''0'' = zero \<and> Number_of_string '''' = zero \<and>
   validate ''Product name,Price,Quantity\<newline>Free sample,0,'' = Inr []"
proof -
  let ?c = "''Product name,Price,Quantity\<newline>Free sample,0,''"
  let ?l = "''Free sample,0,''"
  have l: "lines_of ?c = [''Product name,Price,Quantity'', ?l]"
    by (simp add: eval_lines)
  have c: "cells_of ?l = [''Free sample'', ''0'', '''']"
    by (simp add: eval_lines)
  have i: "0 < length [?l]" by simp
  have n: "3 \<le> length (cells_of ([?l] ! 0))" using c by simp
  have j1: "(1::nat) = 1 \<or> (1::nat) = 2" and j2: "(2::nat) = 1 \<or> (2::nat) = 2" by simp_all
  have c1: "cells_of ([?l] ! 0) ! 1 = ''0'' \<or> cells_of ([?l] ! 0) ! 1 = []"
    and c2: "cells_of ([?l] ! 0) ! 2 = ''0'' \<or> cells_of ([?l] ! 0) ! 2 = []"
    using c by simp_all
  from zero_and_blank_numbers_accepted [OF l i n j1 c1] c
  have z0: "Number_of_string ''0'' = zero" by auto
  from zero_and_blank_numbers_accepted [OF l i n j2 c2] c
  have z1: "Number_of_string '''' = zero" by auto
  have v: "validate ?c = Inr []"
    by (simp add: validate_Cons [OF l] eval_validate eval_lines eval_number)
  from l c z0 z1 v show ?thesis by simp
qed

subsection \<open>Failure of parse\<close>

text \<open>
  C3. \<open>parse\<close> throws the error \<open>Validation failed!\<close> exactly when \<open>validate\<close> returns a
  non-empty list of errors; the error thrown is that fixed value and carries no list (the
  list is written to the console); and when \<open>validate\<close> returns the empty list, \<open>parse\<close>
  returns a result.
\<close>

theorem parse_fails_iff_validation_errors:
  assumes "readFileSync path = Inr contents"
  shows "(snd (parse readFileSync uuid_v4 path) = Inl (Error ''Validation failed!'') \<longleftrightarrow>
           (\<exists>es. validate contents = Inr es \<and> es \<noteq> [])) \<and>
         (\<forall>es. validate contents = Inr es \<and> es \<noteq> [] \<longrightarrow>
            parse readFileSync uuid_v4 path = ([es], Inl (Error ''Validation failed!''))) \<and>
         (validate contents = Inr [] \<longrightarrow> (\<exists>r. parse readFileSync uuid_v4 path = ([], Inr r)))"
proof (cases "validate contents")
  case (Inl e)
  then have "e = TypeError"
    by (cases "lines_of contents") (auto simp: validate_Nil validate_Cons)
  with Inl show ?thesis by (simp add: parse_unfold [of readFileSync path contents, OF assms])
next
  case (Inr es)
  then show ?thesis by (simp add: parse_unfold [of readFileSync path contents, OF assms])
qed

theorem parse_fails_iff_validation_errors_witness:
  \<open>validate ''Product name,Priiice,Quantity\<newline>Mollis consequat,9.00,2'' =
      Inr [createError HEADER 0 1 ''Expected header to be named "Price" but received Priiice.''] \<and>
    parse (\<lambda>p. Inr ''Product name,Priiice,Quantity\<newline>Mollis consequat,9.00,2'')
        (\<lambda>i. ''uuid'') ''cart.csv'' =
      ([[createError HEADER 0 1 ''Expected header to be named "Price" but received Priiice.'']],
       Inl (Error ''Validation failed!'')) \<and>
    snd (parse (\<lambda>p. Inr ''Product name,Priiice,Quantity\<newline>Mollis consequat,9.00,2'')
        (\<lambda>i. ''uuid'') ''cart.csv'') = Inl (Error ''Validation failed!'')\<close>
proof -
  let ?c = "''Product name,Priiice,Quantity\<newline>Mollis consequat,9.00,2''"
  let ?e = "createError HEADER 0 1 ''Expected header to be named \"Price\" but received Priiice.''"
  have l: "lines_of ?c = [''Product name,Priiice,Quantity'', ''Mollis consequat,9.00,2'']"
    by (simp add: eval_lines)
  have v: "validate ?c = Inr [?e]"
    by (simp add: validate_Cons [OF l] eval_validate eval_lines eval_number)
  have rd: "(\<lambda>p. Inr ?c) ''cart.csv'' = (Inr ?c :: js_error + string)" by simp
  note t = parse_fails_iff_validation_errors
    [of "\<lambda>p. Inr ?c" "''cart.csv''" ?c "\<lambda>i. ''uuid''", OF rd]
  from t v have p: "parse (\<lambda>p. Inr ?c) (\<lambda>i. ''uuid'') ''cart.csv'' =
      ([[?e]], Inl (Error ''Validation failed!''))"
    by (simp add: createError_def)
  from t v have s: "snd (parse (\<lambda>p. Inr ?c) (\<lambda>i. ''uuid'') ''cart.csv'') =
      Inl (Error ''Validation failed!'')"
    by (simp add: createError_def)
  from v p s show ?thesis by simp
qed

subsection \<open>The result of parse\<close>

text \<open>
  C1. When the contents validate with no error, \<open>parse\<close> returns a result whose items are
  the body lines (the non-empty lines after the first) converted by \<open>parseLine\<close>, one item
  per line and in the order of the file, and whose total is \<open>calcTotal\<close> of those items,
  the sum of price times quantity, rounded to 2 decimal places by \<open>Number(total.toFixed(2))\<close>.
  The witness is a cart of five rows with the total 348.32.
\<close>

theorem parse_valid_result:
  assumes "readFileSync path = Inr contents" and "validate contents = Inr []"
  shows "\<exists>r. parse readFileSync uuid_v4 path = ([], Inr r) \<and>
      length (items r) = length (drop 1 (lines_of contents)) \<and>
      (\<forall>i<length (items r).
         items r ! i = parseLine (uuid_v4 i) (drop 1 (lines_of contents) ! i)) \<and>
      total r = Number_toFixed 2 (calcTotal (items r))"
  by (simp add: parse_valid_items [of readFileSync path contents, OF assms] nth_enumerate_eq)

theorem parse_valid_result_witness:
  "validate ''Product name,Price,Quantity\<newline>Mollis consequat,9.00,2\<newline>  Tvoluptatem,10.32,1\<newline>Scelerisque lacinia,18.90,1\<newline>Consectetur adipiscing,28.72,10\<newline>Condimentum aliquet,13.90,1 '' = Inr [] \<and>
   (\<exists>r. parse (\<lambda>p. Inr ''Product name,Price,Quantity\<newline>Mollis consequat,9.00,2\<newline>  Tvoluptatem,10.32,1\<newline>Scelerisque lacinia,18.90,1\<newline>Consectetur adipiscing,28.72,10\<newline>Condimentum aliquet,13.90,1 '')
          (\<lambda>i. ''uuid'') ''cart.csv'' = ([], Inr r) \<and>
      length (items r) = 5 \<and>
      items r ! 1 =
        [(''name'', Str ''Tvoluptatem''), (''price'', Num (Number_of_string ''10.32'')),
         (''quantity'', Num (Number_of_string ''1'')), (''id'', Str ''uuid'')] \<and>
      calcTotal (items r) = Finite False 1531927560747745 (- 42) \<and>
      total r = Number_of_string ''348.32'')"
proof -
  let ?c = "''Product name,Price,Quantity\<newline>Mollis consequat,9.00,2\<newline>  Tvoluptatem,10.32,1\<newline>Scelerisque lacinia,18.90,1\<newline>Consectetur adipiscing,28.72,10\<newline>Condimentum aliquet,13.90,1 ''"
  let ?body = "[''Mollis consequat,9.00,2'', ''  Tvoluptatem,10.32,1'',
      ''Scelerisque lacinia,18.90,1'', ''Consectetur adipiscing,28.72,10'',
      ''Condimentum aliquet,13.90,1 '']"
  have l: "drop 1 (lines_of ?c) = ?body"
    by (simp add: eval_lines)
  have rd: "(\<lambda>p. Inr ?c) ''cart.csv'' = (Inr ?c :: js_error + string)" by simp
  from parse_valid_result [of "\<lambda>p. Inr ?c" "''cart.csv''" ?c "\<lambda>i. ''uuid''", OF rd validate_sample]
  obtain r where
    p: "parse (\<lambda>p. Inr ?c) (\<lambda>i. ''uuid'') ''cart.csv'' = ([], Inr r)" and
    n: "length (items r) = length (drop 1 (lines_of ?c))" and
    it: "\<forall>i<length (items r). items r ! i = parseLine ''uuid'' (drop 1 (lines_of ?c) ! i)" and
    t: "total r = Number_toFixed 2 (calcTotal (items r))"
    by blast
  note n' = n [unfolded l] and it' = it [unfolded l]
  from n' have n5: "length (items r) = 5" by simp
  have its: "items r = map (parseLine ''uuid'') ?body"
  proof (rule nth_equalityI)
    show "length (items r) = length (map (parseLine ''uuid'') ?body)"
      using n5 by simp
    fix i assume a: "i < length (items r)"
    with n5 have b: "i < length ?body" by simp
    from it' a have "items r ! i = parseLine ''uuid'' (?body ! i)" by blast
    also have "\<dots> = map (parseLine ''uuid'') ?body ! i"
      by (rule nth_map [symmetric]) (rule b)
    finally show "items r ! i = map (parseLine ''uuid'') ?body ! i" .
  qed
  have i1: "items r ! 1 =
        [(''name'', Str ''Tvoluptatem''), (''price'', Num (Number_of_string ''10.32'')),
         (''quantity'', Num (Number_of_string ''1'')), (''id'', Str ''uuid'')]"
    by (simp add: its eval_items eval_lines)
  have c: "calcTotal (items r) = Finite False 1531927560747745 (- 42)"
    by (simp add: its eval_items eval_lines eval_number)
  have "Number_toFixed 2 (Finite False 1531927560747745 (- 42)) = Number_of_string ''348.32''"
    by (simp add: eval_number)
  with t c have "total r = Number_of_string ''348.32''" by simp
  with validate_sample p n5 i1 c show ?thesis by blast
qed

subsection \<open>Non-negative prices and quantities\<close>

text \<open>
  C8. \<open>parse\<close> returns a result only when \<open>validate\<close> returns no error, and then every item
  of the result has a price and a quantity that are numbers with \<open>price >= 0\<close> and
  \<open>quantity >= 0\<close>.
\<close>

theorem parse_items_nonnegative:
  assumes "readFileSync path = Inr contents"
  shows "(\<forall>r. snd (parse readFileSync uuid_v4 path) = Inr r \<longrightarrow> validate contents = Inr []) \<and>
    (validate contents = Inr [] \<longrightarrow>
       (\<exists>r. snd (parse readFileSync uuid_v4 path) = Inr r \<and>
          (\<forall>item\<in>set (items r). \<exists>p q.
             get_prop item ''price'' = Num p \<and> get_prop item ''quantity'' = Num q \<and>
             js_ge p zero \<and> js_ge q zero)))"
proof (intro conjI allI impI)
  fix r
  assume "snd (parse readFileSync uuid_v4 path) = Inr r"
  then show "validate contents = Inr []"
    by (cases "validate contents") (auto simp: parse_unfold [of readFileSync path contents, OF assms] split: if_splits)
next
  assume v: "validate contents = Inr []"
  let ?body = "drop 1 (lines_of contents)"
  define r where "r = \<lparr>items = map (\<lambda>(i, l). parseLine (uuid_v4 i) l) (enumerate 0 ?body),
      total = Number_toFixed 2
        (calcTotal (map (\<lambda>(i, l). parseLine (uuid_v4 i) l) (enumerate 0 ?body)))\<rparr>"
  have p: "parse readFileSync uuid_v4 path = ([], Inr r)"
    by (simp add: parse_valid_items [of readFileSync path contents, OF assms v] r_def)
  have n: "length (items r) = length ?body" by (simp add: r_def)
  have it: "\<forall>i<length (items r). items r ! i = parseLine (uuid_v4 i) (?body ! i)"
    by (simp add: r_def nth_enumerate_eq)
  note ok = valid_rows [OF v]
  have "\<exists>p q. get_prop item ''price'' = Num p \<and> get_prop item ''quantity'' = Num q \<and>
      js_ge p zero \<and> js_ge q zero" if "item \<in> set (items r)" for item
  proof -
    from that obtain i where i: "i < length (items r)" and e: "item = items r ! i"
      by (auto simp: in_set_conv_nth)
    from i n have "i < length ?body" by simp
    then have r0: "row_errors ?body i = []" by (rule ok)
    from it i e have e': "item = parseLine (uuid_v4 i) (?body ! i)" by simp
    from valid_row_cells(1) [OF r0] have c: "3 \<le> length (cells_of (?body ! i))" .
    from valid_row_cells(2) [OF r0, of 1] valid_row_cells(2) [OF r0, of 2]
    have "js_ge (Number_of_string (cells_of (?body ! i) ! 1)) zero"
      "js_ge (Number_of_string (cells_of (?body ! i) ! 2)) zero" by simp_all
    with parseLine_numbers [OF c, of "uuid_v4 i"] e' show ?thesis by simp
  qed
  with p show "\<exists>r. snd (parse readFileSync uuid_v4 path) = Inr r \<and>
          (\<forall>item\<in>set (items r). \<exists>p q.
             get_prop item ''price'' = Num p \<and> get_prop item ''quantity'' = Num q \<and>
             js_ge p zero \<and> js_ge q zero)"
    by auto
qed

theorem parse_items_nonnegative_witness:
  "validate ''Product name,Price,Quantity\<newline>Mollis consequat,9.00,2'' = Inr [] \<and>
   (\<exists>r. snd (parse (\<lambda>p. Inr ''Product name,Price,Quantity\<newline>Mollis consequat,9.00,2'')
             (\<lambda>i. ''uuid'') ''cart.csv'') = Inr r \<and>
      (\<forall>item\<in>set (items r). \<exists>p q.
         get_prop item ''price'' = Num p \<and> get_prop item ''quantity'' = Num q \<and>
         js_ge p zero \<and> js_ge q zero))"
proof -
  let ?c = "''Product name,Price,Quantity\<newline>Mollis consequat,9.00,2''"
  have rd: "(\<lambda>p. Inr ?c) ''cart.csv'' = (Inr ?c :: js_error + string)" by simp
  from parse_items_nonnegative [of "\<lambda>p. Inr ?c" "''cart.csv''" ?c "\<lambda>i. ''uuid''", OF rd]
    validate_one_row
  show ?thesis by blast
qed

subsection \<open>calcTotal\<close>

text \<open>
  C7, as amended. \<open>calcTotal\<close> returns the sum over the items of price times quantity,
  added from the left in double arithmetic starting at \<open>0\<close>, and \<open>calcTotal\<close> of the empty
  sequence is \<open>0\<close>. When every price and quantity is a non-negative integer and the exact
  total is below \<open>2^53\<close>, the result is that exact total, so it is the same for every
  permutation of the items.

  As the claim states it, for every sequence and every permutation, it fails: each
  addition rounds, so the order can change the result. The counterexample has the items
  \<open>2^53, 1, 1\<close> (the total is \<open>2^53\<close> in this order and \<open>2^53 + 2\<close> with \<open>2^53\<close> last) and
  the prices \<open>0.1, 0.2, 0.3\<close> (\<open>0.6000000000000001\<close> in this order, \<open>0.6\<close> reversed).
\<close>

theorem calcTotal_exact_sum:
  "calcTotal [] = zero \<and>
   (\<forall>xs x. calcTotal (xs @ [x]) =
      js_add (calcTotal xs) (js_mul (ToNumber (get_prop x ''price''))
                                    (ToNumber (get_prop x ''quantity'')))) \<and>
   (\<forall>cartItems permuted.
      (\<forall>item\<in>set cartItems.
         is_nat_number (ToNumber (get_prop item ''price'')) \<and>
         is_nat_number (ToNumber (get_prop item ''quantity''))) \<and>
      sum_list (map subtotal cartItems) < 2 ^ 53 \<and>
      mset permuted = mset cartItems \<longrightarrow>
      calcTotal permuted = nat_double (sum_list (map subtotal cartItems)))"
proof (intro conjI allI impI)
  show "calcTotal [] = zero" by (simp add: calcTotal_def)
next
  fix xs x
  show "calcTotal (xs @ [x]) =
      js_add (calcTotal xs) (js_mul (ToNumber (get_prop x ''price''))
                                    (ToNumber (get_prop x ''quantity'')))"
    by (simp add: calcTotal_def)
next
  fix cartItems permuted
  assume a: "(\<forall>item\<in>set cartItems.
         is_nat_number (ToNumber (get_prop item ''price'')) \<and>
         is_nat_number (ToNumber (get_prop item ''quantity''))) \<and>
      sum_list (map subtotal cartItems) < 2 ^ 53 \<and>
      mset permuted = mset cartItems"
  then have m: "mset permuted = mset cartItems" by simp
  then have "set permuted = set cartItems" by (rule mset_eq_setD)
  with a have 1: "\<forall>item\<in>set permuted.
         is_nat_number (ToNumber (get_prop item ''price'')) \<and>
         is_nat_number (ToNumber (get_prop item ''quantity''))" by simp
  from m have s: "sum_list (map subtotal permuted) = sum_list (map subtotal cartItems)"
    by (rule sum_list_subtotal_mset)
  with a have 2: "sum_list (map subtotal permuted) < 2 ^ 53" by simp
  from calcTotal_exact [OF 1 2] s
  show "calcTotal permuted = nat_double (sum_list (map subtotal cartItems))" by simp
qed

theorem calcTotal_exact_sum_witness:
  "sum_list (map subtotal
     [[(''price'', Num (Finite False 9 0)), (''quantity'', Num (Finite False 1 1))],
      [(''price'', Num (Finite False 5 1)), (''quantity'', Num (Finite False 1 0))],
      [(''price'', Num (Finite False 19 0)), (''quantity'', Num (Finite False 1 0))]]) = 47 \<and>
   calcTotal
     [[(''price'', Num (Finite False 9 0)), (''quantity'', Num (Finite False 1 1))],
      [(''price'', Num (Finite False 5 1)), (''quantity'', Num (Finite False 1 0))],
      [(''price'', Num (Finite False 19 0)), (''quantity'', Num (Finite False 1 0))]] =
     Finite False 47 0 \<and>
   calcTotal
     [[(''price'', Num (Finite False 19 0)), (''quantity'', Num (Finite False 1 0))],
      [(''price'', Num (Finite False 9 0)), (''quantity'', Num (Finite False 1 1))],
      [(''price'', Num (Finite False 5 1)), (''quantity'', Num (Finite False 1 0))]] =
     Finite False 47 0"
proof -
  let ?a = "[(''price'', Num (Finite False 9 0)), (''quantity'', Num (Finite False 1 1))]"
  let ?b = "[(''price'', Num (Finite False 5 1)), (''quantity'', Num (Finite False 1 0))]"
  let ?c = "[(''price'', Num (Finite False 19 0)), (''quantity'', Num (Finite False 1 0))]"
  have n: "\<forall>item\<in>set [?a, ?b, ?c].
      is_nat_number (ToNumber (get_prop item ''price'')) \<and>
      is_nat_number (ToNumber (get_prop item ''quantity''))"
    by (simp add: eval_nat)
  have s: "sum_list (map subtotal [?a, ?b, ?c]) = 47"
    by (simp add: eval_nat)
  have b: "sum_list (map subtotal [?a, ?b, ?c]) < 2 ^ 53"
    unfolding s by simp
  have m1: "mset [?a, ?b, ?c] = mset [?a, ?b, ?c]" by simp
  have m2: "mset [?c, ?a, ?b] = mset [?a, ?b, ?c]" by simp
  have d: "nat_double 47 = Finite False 47 0"
    by (simp add: eval_nat)
  from calcTotal_exact_sum have g: "\<And>cartItems permuted.
      (\<forall>item\<in>set cartItems.
         is_nat_number (ToNumber (get_prop item ''price'')) \<and>
         is_nat_number (ToNumber (get_prop item ''quantity''))) \<and>
      sum_list (map subtotal cartItems) < 2 ^ 53 \<and>
      mset permuted = mset cartItems \<Longrightarrow>
      calcTotal permuted = nat_double (sum_list (map subtotal cartItems))"
    by blast
  from g [of "[?a, ?b, ?c]" "[?a, ?b, ?c]"] n b m1
  have t1: "calcTotal [?a, ?b, ?c] = Finite False 47 0"
    by (simp only: s d)
  from g [of "[?a, ?b, ?c]" "[?c, ?a, ?b]"] n b m2
  have t2: "calcTotal [?c, ?a, ?b] = Finite False 47 0"
    by (simp only: s d)
  from s t1 t2 show ?thesis by simp
qed

theorem calcTotal_order_counterexample:
  "mset [[(''price'', Num (Finite False 1 53)), (''quantity'', Num (Finite False 1 0))],
         [(''price'', Num (Finite False 1 0)), (''quantity'', Num (Finite False 1 0))],
         [(''price'', Num (Finite False 1 0)), (''quantity'', Num (Finite False 1 0))]] =
   mset [[(''price'', Num (Finite False 1 0)), (''quantity'', Num (Finite False 1 0))],
         [(''price'', Num (Finite False 1 0)), (''quantity'', Num (Finite False 1 0))],
         [(''price'', Num (Finite False 1 53)), (''quantity'', Num (Finite False 1 0))]] \<and>
   calcTotal [[(''price'', Num (Finite False 1 53)), (''quantity'', Num (Finite False 1 0))],
              [(''price'', Num (Finite False 1 0)), (''quantity'', Num (Finite False 1 0))],
              [(''price'', Num (Finite False 1 0)), (''quantity'', Num (Finite False 1 0))]] =
     Finite False 1 53 \<and>
   calcTotal [[(''price'', Num (Finite False 1 0)), (''quantity'', Num (Finite False 1 0))],
              [(''price'', Num (Finite False 1 0)), (''quantity'', Num (Finite False 1 0))],
              [(''price'', Num (Finite False 1 53)), (''quantity'', Num (Finite False 1 0))]] =
     Finite False 4503599627370497 1 \<and>
   Finite False 1 53 \<noteq> Finite False 4503599627370497 1 \<and>
   calcTotal [[(''price'', Num (Number_of_string ''0.1'')), (''quantity'', Num (Number_of_string ''1''))],
              [(''price'', Num (Number_of_string ''0.2'')), (''quantity'', Num (Number_of_string ''1''))],
              [(''price'', Num (Number_of_string ''0.3'')), (''quantity'', Num (Number_of_string ''1''))]] =
     Number_of_string ''0.6000000000000001'' \<and>
   calcTotal [[(''price'', Num (Number_of_string ''0.3'')), (''quantity'', Num (Number_of_string ''1''))],
              [(''price'', Num (Number_of_string ''0.2'')), (''quantity'', Num (Number_of_string ''1''))],
              [(''price'', Num (Number_of_string ''0.1'')), (''quantity'', Num (Number_of_string ''1''))]] =
     Number_of_string ''0.6'' \<and>
   Number_of_string ''0.6000000000000001'' \<noteq> Number_of_string ''0.6''"
  by (simp add: eval_total eval_number)

end
